theory Spec2Isabelle
  imports Main "HOL-Library.Char_ord" "HOL-Library.List_Lexorder" "HOL-Library.Sublist"
begin

section \<open>Run control plane of the workflow dashboard: a shallow embedding\<close>

text \<open>
  The definitions below follow the server-action module of the web package
  (\<^verbatim>\<open>src/unnamed/part_000\<close>): the configuration resolver and world cache
  (\<^verbatim>\<open>buildEnvMapFromProcessEnv\<close>, \<^verbatim>\<open>getWorldFromEnv\<close>), the error classifier
  (\<^verbatim>\<open>createServerActionError\<close>, \<^verbatim>\<open>getUserFacingErrorMessage\<close>), the response envelope
  (\<^verbatim>\<open>toJSONCompatible\<close>, \<^verbatim>\<open>createResponse\<close>) and \<^verbatim>\<open>wakeUpRun\<close>.

  JavaScript strings are modelled as \<^typ>\<open>string\<close>, one \<^typ>\<open>char\<close> per code unit
  (code units below 256). A value of type \<^verbatim>\<open>string | undefined\<close> is a
  \<^typ>\<open>string option\<close>, \<^term>\<open>None\<close> being \<^verbatim>\<open>undefined\<close>.
\<close>

subsection \<open>JavaScript objects with string keys\<close>

text \<open>
  An object is the list of its own enumerable properties in the order in which
  \<^verbatim>\<open>Object.keys\<close>, \<^verbatim>\<open>Object.entries\<close> and \<^verbatim>\<open>JSON.stringify\<close> enumerate them. The keys of
  an object are distinct.
\<close>

type_synonym 'v js_object = "(string \<times> 'v) list"

text \<open>\<^verbatim>\<open>type EnvMap = Record<string, string | undefined>\<close>\<close>

type_synonym EnvMap = "string option js_object"

definition Object_keys :: "'v js_object \<Rightarrow> string list" where
  "Object_keys obj = map fst obj"

definition Object_values :: "'v js_object \<Rightarrow> 'v list" where
  "Object_values obj = map snd obj"

definition Object_entries :: "'v js_object \<Rightarrow> (string \<times> 'v) list" where
  "Object_entries obj = obj"

text \<open>
  Property access \<^verbatim>\<open>obj[key]\<close> on an \<^verbatim>\<open>EnvMap\<close>: the value of the own property, and
  \<^verbatim>\<open>undefined\<close> when there is none.
\<close>

definition get_prop :: "EnvMap \<Rightarrow> string \<Rightarrow> string option" where
  "get_prop obj key = (case map_of obj key of None \<Rightarrow> None | Some v \<Rightarrow> v)"

text \<open>
  An array index is a canonical numeric string denoting an integer below \<open>2^32 - 1\<close>.
  An ordinary object lists its array-index keys first, in ascending numeric order, and
  its other string keys after them in the order of their creation.
\<close>

definition is_digit :: "char \<Rightarrow> bool" where
  "is_digit c = (48 \<le> (of_char c :: nat) \<and> (of_char c :: nat) \<le> 57)"

definition decimal_value :: "string \<Rightarrow> int" where
  "decimal_value s = foldl (\<lambda>n c. 10 * n + (of_char c - 48)) 0 s"

definition array_index :: "string \<Rightarrow> int option" where
  "array_index k =
     (if k \<noteq> [] \<and> list_all is_digit k \<and> (k = ''0'' \<or> hd k \<noteq> CHR ''0'')
         \<and> decimal_value k < 4294967295
      then Some (decimal_value k) else None)"

definition own_property_order :: "'v js_object \<Rightarrow> 'v js_object" where
  "own_property_order props =
     sort_key (\<lambda>p. the (array_index (fst p))) (filter (\<lambda>p. array_index (fst p) \<noteq> None) props)
     @ filter (\<lambda>p. array_index (fst p) = None) props"

text \<open>
  \<^verbatim>\<open>CreateDataProperty\<close>: an existing property keeps its place and takes the new
  value, a new property is created last.
\<close>

definition define_property :: "'v js_object \<Rightarrow> string \<times> 'v \<Rightarrow> 'v js_object" where
  "define_property props kv =
     (if fst kv \<in> set (map fst props)
      then map (\<lambda>p. if fst p = fst kv then (fst p, snd kv) else p) props
      else props @ [kv])"

definition Object_fromEntries :: "(string \<times> 'v) list \<Rightarrow> 'v js_object" where
  "Object_fromEntries entries = own_property_order (foldl define_property [] entries)"

subsection \<open>\<^verbatim>\<open>JSON.stringify\<close> of an object of strings\<close>

definition hex_digit :: "nat \<Rightarrow> char" where
  "hex_digit n = (if n < 10 then char_of (48 + n) else char_of (87 + n))"

text \<open>\<^verbatim>\<open>QuoteJSONString\<close>, one code unit at a time.\<close>

definition quote_char :: "char \<Rightarrow> string" where
  "quote_char c =
     (let n = (of_char c :: nat) in
      if n = 8 then [CHR 0x5C, CHR ''b'']
      else if n = 9 then [CHR 0x5C, CHR ''t'']
      else if n = 10 then [CHR 0x5C, CHR ''n'']
      else if n = 12 then [CHR 0x5C, CHR ''f'']
      else if n = 13 then [CHR 0x5C, CHR ''r'']
      else if n = 34 then [CHR 0x5C, CHR 0x22]
      else if n = 92 then [CHR 0x5C, CHR 0x5C]
      else if n < 32 then [CHR 0x5C, CHR ''u'', CHR ''0'', CHR ''0'', hex_digit (n div 16), hex_digit (n mod 16)]
      else [c])"

definition QuoteJSONString :: "string \<Rightarrow> string" where
  "QuoteJSONString s = [CHR 0x22] @ concat (map quote_char s) @ [CHR 0x22]"

fun join :: "string \<Rightarrow> string list \<Rightarrow> string" where
  "join sep [] = []"
| "join sep [x] = x"
| "join sep (x # y # ys) = x @ sep @ join sep (y # ys)"

text \<open>
  \<^verbatim>\<open>JSON.stringify\<close> of an object whose values are strings or \<^verbatim>\<open>undefined\<close>: a property
  whose value is \<^verbatim>\<open>undefined\<close> is left out, the others are written in enumeration order.
\<close>

definition JSON_stringify_env :: "EnvMap \<Rightarrow> string" where
  "JSON_stringify_env obj =
     ''{'' @ join '','' (concat (map (\<lambda>(k, v). case v of None \<Rightarrow> []
              | Some s \<Rightarrow> [QuoteJSONString k @ '':'' @ QuoteJSONString s]) obj)) @ ''}''"

subsection \<open>Config resolver\<close>

text \<open>\<^verbatim>\<open>process.env\<close>: a variable is a string or is not set.\<close>

type_synonym process_env = "string \<Rightarrow> string option"

definition server_env_names :: "string list" where
  "server_env_names =
     [''WORKFLOW_TARGET_WORLD'', ''WORKFLOW_VERCEL_ENV'', ''WORKFLOW_VERCEL_AUTH_TOKEN'',
      ''WORKFLOW_VERCEL_PROJECT'', ''WORKFLOW_VERCEL_TEAM'', ''PORT'',
      ''WORKFLOW_MANIFEST_PATH'', ''WORKFLOW_LOCAL_DATA_DIR'', ''WORKFLOW_POSTGRES_URL'']"

definition buildEnvMapFromProcessEnv :: "process_env \<Rightarrow> EnvMap" where
  "buildEnvMapFromProcessEnv penv =
     [(''WORKFLOW_TARGET_WORLD'', penv ''WORKFLOW_TARGET_WORLD''),
      (''WORKFLOW_VERCEL_ENV'', penv ''WORKFLOW_VERCEL_ENV''),
      (''WORKFLOW_VERCEL_AUTH_TOKEN'', penv ''WORKFLOW_VERCEL_AUTH_TOKEN''),
      (''WORKFLOW_VERCEL_PROJECT'', penv ''WORKFLOW_VERCEL_PROJECT''),
      (''WORKFLOW_VERCEL_TEAM'', penv ''WORKFLOW_VERCEL_TEAM''),
      (''PORT'', penv ''PORT''),
      (''WORKFLOW_MANIFEST_PATH'', penv ''WORKFLOW_MANIFEST_PATH''),
      (''WORKFLOW_LOCAL_DATA_DIR'', penv ''WORKFLOW_LOCAL_DATA_DIR''),
      (''WORKFLOW_POSTGRES_URL'', penv ''WORKFLOW_POSTGRES_URL'')]"

text \<open>
  \<^verbatim>\<open>Object.values(serverEnvMap).some((v) => v !== undefined && v !== '')\<close>
\<close>

definition hasServerConfig :: "process_env \<Rightarrow> bool" where
  "hasServerConfig penv =
     list_ex (\<lambda>v. v \<noteq> None \<and> v \<noteq> Some '''') (Object_values (buildEnvMapFromProcessEnv penv))"

definition effectiveEnvMap :: "process_env \<Rightarrow> EnvMap \<Rightarrow> EnvMap" where
  "effectiveEnvMap penv envMap =
     (if hasServerConfig penv then buildEnvMapFromProcessEnv penv else envMap)"

text \<open>
  The cache key of an effective map: its keys sorted (the default \<^verbatim>\<open>sort\<close> compares code
  units lexicographically), paired with their values, made an object and serialized.
\<close>

definition cacheKeyOf :: "EnvMap \<Rightarrow> string" where
  "cacheKeyOf eff =
     (let sortedKeys = sort (Object_keys eff);
          sortedEntries = map (\<lambda>key. (key, get_prop eff key)) sortedKeys
      in JSON_stringify_env (Object_fromEntries sortedEntries))"

definition cacheKey :: "process_env \<Rightarrow> EnvMap \<Rightarrow> string" where
  "cacheKey penv envMap = cacheKeyOf (effectiveEnvMap penv envMap)"


subsection \<open>Raised failures\<close>

text \<open>
  What a \<^verbatim>\<open>catch\<close> clause can receive. \<^verbatim>\<open>WorkflowAPIError\<close> and
  \<^verbatim>\<open>WorkflowRunNotFoundError\<close> come from the errors package; the classifier tells them
  apart with their \<^verbatim>\<open>is\<close> guards. \<open>OtherError\<close> is any other instance of \<^verbatim>\<open>Error\<close>,
  \<open>NonError\<close> a thrown value that is no \<^verbatim>\<open>Error\<close>, given by its \<^verbatim>\<open>String(error)\<close> text and
  the stack of the \<^verbatim>\<open>Error\<close> that wraps it. Each error carries its message and its stack
  (\<^verbatim>\<open>string | undefined\<close>); an API error has in addition its optional status, url and code.
\<close>

datatype raised =
    WorkflowAPIError string "string option" "int option" "string option" "string option"
  | WorkflowRunNotFoundError string "string option"
  | OtherError string "string option"
  | NonError string "string option"

fun err_message :: "raised \<Rightarrow> string" where
  "err_message (WorkflowAPIError m st status url code) = m"
| "err_message (WorkflowRunNotFoundError m st) = m"
| "err_message (OtherError m st) = m"
| "err_message (NonError m st) = m"

fun err_stack :: "raised \<Rightarrow> string option" where
  "err_stack (WorkflowAPIError m st status url code) = st"
| "err_stack (WorkflowRunNotFoundError m st) = st"
| "err_stack (OtherError m st) = st"
| "err_stack (NonError m st) = st"

subsection \<open>JavaScript values\<close>

text \<open>
  The values that pass through the response envelope and the request parameters. Numbers
  are modelled by integers, with negative zero, \<^verbatim>\<open>NaN\<close> and the infinities as
  constructors of their own. An array has no holes and no properties besides its
  elements. An object is a plain data object without accessors, given by its own
  enumerable properties in enumeration order; a \<^verbatim>\<open>toJSON\<close> method that it has (own or
  inherited) is listed among them as a property \<^verbatim>\<open>toJSON\<close> bound to a function. A function
  is given by what a call of it as a \<^verbatim>\<open>toJSON\<close> method does: \<open>JFunction r\<close> returns the value
  \<open>r\<close>, \<open>JFunctionRaising e\<close> raises \<open>e\<close>. Values are trees; a reference from inside an
  object or an array back to that object or array, or to one that encloses it, is
  \<open>JBackRef\<close>, so that a cyclic structure is a tree with such a leaf.
\<close>

datatype jsval =
    JUndefined
  | JNull
  | JBool bool
  | JNum int
  | JNegZero
  | JNaN
  | JInfinity
  | JBigInt int
  | JStr string
  | JSymbol
  | JFunction jsval
  | JFunctionRaising raised
  | JArr "jsval list"
  | JObj "(string \<times> jsval) list"
  | JBackRef

fun typeof :: "jsval \<Rightarrow> string" where
  "typeof JUndefined = ''undefined''"
| "typeof JNull = ''object''"
| "typeof (JBool b) = ''boolean''"
| "typeof (JNum n) = ''number''"
| "typeof JNegZero = ''number''"
| "typeof JNaN = ''number''"
| "typeof JInfinity = ''number''"
| "typeof (JBigInt n) = ''bigint''"
| "typeof (JStr s) = ''string''"
| "typeof JSymbol = ''symbol''"
| "typeof (JFunction r) = ''function''"
| "typeof (JFunctionRaising e) = ''function''"
| "typeof (JArr xs) = ''object''"
| "typeof (JObj ps) = ''object''"
| "typeof JBackRef = ''object''"

fun truthy :: "jsval \<Rightarrow> bool" where
  "truthy JUndefined = False"
| "truthy JNull = False"
| "truthy (JBool b) = b"
| "truthy (JNum n) = (n \<noteq> 0)"
| "truthy JNegZero = False"
| "truthy JNaN = False"
| "truthy JInfinity = True"
| "truthy (JBigInt n) = (n \<noteq> 0)"
| "truthy (JStr s) = (s \<noteq> '''')"
| "truthy JSymbol = True"
| "truthy (JFunction r) = True"
| "truthy (JFunctionRaising e) = True"
| "truthy (JArr xs) = True"
| "truthy (JObj ps) = True"
| "truthy JBackRef = True"

text \<open>\<^verbatim>\<open>IsCallable\<close>\<close>

fun IsCallable :: "jsval \<Rightarrow> bool" where
  "IsCallable (JFunction r) = True"
| "IsCallable (JFunctionRaising e) = True"
| "IsCallable v = False"

text \<open>Truthiness of a \<^verbatim>\<open>string | undefined\<close>: defined and not empty.\<close>

definition truthy_string :: "string option \<Rightarrow> bool" where
  "truthy_string v = (case v of None \<Rightarrow> False | Some s \<Rightarrow> s \<noteq> '''')"

subsection \<open>Error classifier\<close>

datatype layer = Server | API

record request_info =
  operation :: string
  params :: "(string \<times> jsval) list"
  status :: "int option"
  url :: "string option"
  code :: "string option"

record ServerActionError =
  message :: string
  layer :: layer
  cause :: "string option"
  request :: "request_info option"

datatype 'a ServerActionResult = Success 'a | Failure ServerActionError

text \<open>\<^verbatim>\<open>String.prototype.includes\<close>\<close>

definition str_includes :: "string \<Rightarrow> string \<Rightarrow> bool" where
  "str_includes s sub = sublist sub s"

text \<open>
  \<^verbatim>\<open>getUserFacingErrorMessage(error, status?)\<close>, on the message of the error. The test
  \<^verbatim>\<open>!status\<close> holds for a missing status and for status 0. The console output is left
  out.
\<close>

definition getUserFacingErrorMessage :: "string \<Rightarrow> int option \<Rightarrow> string" where
  "getUserFacingErrorMessage error_message st =
     (if st = None \<or> st = Some 0 then ''Error creating response: '' @ error_message
      else if st = Some 403 \<or> st = Some 401
        then ''Access denied. Please check your credentials and permissions.''
      else if st = Some 404 then ''The requested resource was not found.''
      else if st = Some 500 then ''Error connecting to World backend, please try again later.''
      else if str_includes error_message ''Network'' \<or> str_includes error_message ''fetch''
        then ''Network error. Please check your connection and try again.''
      else if error_message \<noteq> '''' then error_message
      else ''An unexpected error occurred'')"

text \<open>\<^verbatim>\<open>err.stack || err.message\<close>\<close>

definition stack_or_message :: "raised \<Rightarrow> string" where
  "stack_or_message err =
     (if truthy_string (err_stack err) then the (err_stack err) else err_message err)"

text \<open>\<^verbatim>\<open>requestParams ?? {}\<close>\<close>

definition params_or_empty :: "(string \<times> jsval) list option \<Rightarrow> (string \<times> jsval) list" where
  "params_or_empty requestParams = (case requestParams of None \<Rightarrow> [] | Some ps \<Rightarrow> ps)"

text \<open>
  \<^verbatim>\<open>createServerActionError(error, operation, requestParams?)\<close>. The console output is
  left out.
\<close>

fun createServerActionError ::
  "raised \<Rightarrow> string \<Rightarrow> (string \<times> jsval) list option \<Rightarrow> 'a ServerActionResult" where
  "createServerActionError (WorkflowAPIError m st err_status err_url err_code) op requestParams =
     Failure \<lparr> message = getUserFacingErrorMessage m err_status,
               layer = API,
               cause = Some (stack_or_message (WorkflowAPIError m st err_status err_url err_code)),
               request = Some \<lparr> operation = op, params = params_or_empty requestParams,
                                status = err_status, url = err_url, code = err_code \<rparr> \<rparr>"
| "createServerActionError (WorkflowRunNotFoundError m st) op requestParams =
     Failure \<lparr> message = getUserFacingErrorMessage m (Some 404),
               layer = API,
               cause = Some (stack_or_message (WorkflowRunNotFoundError m st)),
               request = Some \<lparr> operation = op, params = params_or_empty requestParams,
                                status = Some 404, url = None, code = None \<rparr> \<rparr>"
| "createServerActionError err op requestParams =
     Failure \<lparr> message = getUserFacingErrorMessage (err_message err) None,
               layer = Server,
               cause = Some (stack_or_message err),
               request = Some \<lparr> operation = op, params = params_or_empty requestParams,
                                status = Some 500, url = None, code = None \<rparr> \<rparr>"

subsection \<open>Response envelope\<close>

text \<open>
  \<^verbatim>\<open>JSON.parse(JSON.stringify(data))\<close> on the values above, property by property as
  \<^verbatim>\<open>SerializeJSONProperty\<close> goes. The first argument of \<open>json_property\<close> says whether the
  \<^verbatim>\<open>toJSON\<close> method of the value is still to be looked up: it is for the value handed to
  \<^verbatim>\<open>JSON.stringify\<close>, for every array element and for every property value, and it is
  not for the value that a \<^verbatim>\<open>toJSON\<close> call has returned. \<open>json_toJSON\<close> looks the method up
  in the properties of an object and calls it: the serialization goes on with the value
  returned, and a raising method ends it. \<^verbatim>\<open>undefined\<close>, a function and a symbol have no
  JSON text (\<^term>\<open>None\<close>); a non-finite number is written \<^verbatim>\<open>null\<close> and negative zero
  \<^verbatim>\<open>0\<close>; a BigInt raises a \<^verbatim>\<open>TypeError\<close>, and so does an object or array met again inside
  itself; in an array a value without JSON text is written \<^verbatim>\<open>null\<close>, in an object the
  property is left out. Finite numbers and strings are read back as they were.
\<close>

definition bigint_TypeError :: raised where
  "bigint_TypeError = OtherError ''Do not know how to serialize a BigInt'' None"

definition circular_TypeError :: raised where
  "circular_TypeError = OtherError ''Converting circular structure to JSON'' None"

fun json_property :: "bool \<Rightarrow> jsval \<Rightarrow> raised + jsval option"
  and json_toJSON :: "(string \<times> jsval) list \<Rightarrow> (raised + jsval option) option"
  and json_elements :: "jsval list \<Rightarrow> raised + jsval list"
  and json_members :: "(string \<times> jsval) list \<Rightarrow> raised + (string \<times> jsval) list" where
  "json_property call JUndefined = Inr None"
| "json_property call JNull = Inr (Some JNull)"
| "json_property call (JBool b) = Inr (Some (JBool b))"
| "json_property call (JNum n) = Inr (Some (JNum n))"
| "json_property call JNegZero = Inr (Some (JNum 0))"
| "json_property call JNaN = Inr (Some JNull)"
| "json_property call JInfinity = Inr (Some JNull)"
| "json_property call (JBigInt n) = Inl bigint_TypeError"
| "json_property call (JStr s) = Inr (Some (JStr s))"
| "json_property call JSymbol = Inr None"
| "json_property call (JFunction r) = Inr None"
| "json_property call (JFunctionRaising e) = Inr None"
| "json_property call JBackRef = Inl circular_TypeError"
| "json_property call (JArr xs) =
     (case json_elements xs of Inl e \<Rightarrow> Inl e | Inr ys \<Rightarrow> Inr (Some (JArr ys)))"
| "json_property call (JObj ps) =
     (case (if call then json_toJSON ps else None) of
        Some returned \<Rightarrow> returned
      | None \<Rightarrow>
         (case json_members ps of Inl e \<Rightarrow> Inl e | Inr qs \<Rightarrow> Inr (Some (JObj qs))))"
| "json_toJSON [] = None"
| "json_toJSON (p # ps) =
     (if fst p = ''toJSON''
      then (case snd p of
              JFunction r \<Rightarrow> Some (json_property False r)
            | JFunctionRaising e \<Rightarrow> Some (Inl e)
            | _ \<Rightarrow> None)
      else json_toJSON ps)"
| "json_elements [] = Inr []"
| "json_elements (x # xs) =
     (case json_property True x of Inl e \<Rightarrow> Inl e
      | Inr v \<Rightarrow> (case json_elements xs of Inl e \<Rightarrow> Inl e
          | Inr ys \<Rightarrow> Inr ((case v of None \<Rightarrow> JNull | Some y \<Rightarrow> y) # ys)))"
| "json_members [] = Inr []"
| "json_members (p # ps) =
     (case json_property True (snd p) of Inl e \<Rightarrow> Inl e
      | Inr v \<Rightarrow> (case json_members ps of Inl e \<Rightarrow> Inl e
          | Inr qs \<Rightarrow> Inr ((case v of None \<Rightarrow> [] | Some y \<Rightarrow> [(fst p, y)]) @ qs)))"

text \<open>
  \<^verbatim>\<open>toJSONCompatible\<close>: only a truthy value of type \<^verbatim>\<open>object\<close> takes the round trip, any
  other value is returned as it is. When \<^verbatim>\<open>JSON.stringify\<close> yields \<^verbatim>\<open>undefined\<close> (a
  \<^verbatim>\<open>toJSON\<close> method that returns a value without JSON text), \<^verbatim>\<open>JSON.parse\<close> raises a
  \<^verbatim>\<open>SyntaxError\<close>.
\<close>

definition toJSONCompatible :: "jsval \<Rightarrow> raised + jsval" where
  "toJSONCompatible data =
     (if truthy data \<and> typeof data = ''object''
      then (case json_property True data of Inl e \<Rightarrow> Inl e
            | Inr None \<Rightarrow> Inl (OtherError ''undefined is not valid JSON'' None)
            | Inr (Some v) \<Rightarrow> Inr v)
      else Inr data)"

definition createResponse :: "jsval \<Rightarrow> raised + jsval ServerActionResult" where
  "createResponse data =
     (case toJSONCompatible data of Inl e \<Rightarrow> Inl e | Inr d \<Rightarrow> Inr (Success d))"

subsection \<open>Notions used to state the claims on the classifier and the envelope\<close>


text \<open>
  The message of a store-boundary failure as claim C2 words it: derived from the status
  (401/403, 404, 500), otherwise the network message when the text matches, otherwise the
  failure's own message.
\<close>

definition claimed_store_message :: "string \<Rightarrow> int option \<Rightarrow> string" where
  "claimed_store_message m st =
     (if st = Some 401 \<or> st = Some 403
        then ''Access denied. Please check your credentials and permissions.''
      else if st = Some 404 then ''The requested resource was not found.''
      else if st = Some 500 then ''Error connecting to World backend, please try again later.''
      else if str_includes m ''Network'' \<or> str_includes m ''fetch''
        then ''Network error. Please check your connection and try again.''
      else m)"

text \<open>
  Structurally serializable values: what a JSON text denotes. Negative zero is not among
  them, its text being that of zero.
\<close>

fun json_value :: "jsval \<Rightarrow> bool" where
  "json_value JNull = True"
| "json_value (JBool b) = True"
| "json_value (JNum n) = True"
| "json_value (JStr s) = True"
| "json_value (JArr xs) = (\<forall>x \<in> set xs. json_value x)"
| "json_value (JObj ps) = (\<forall>p \<in> set ps. json_value (snd p))"
| "json_value v = False"

text \<open>An object that has a \<^verbatim>\<open>toJSON\<close> method: its property \<^verbatim>\<open>toJSON\<close> is a function.\<close>

definition has_toJSON_method :: "(string \<times> jsval) list \<Rightarrow> bool" where
  "has_toJSON_method ps = (case map_of ps ''toJSON'' of None \<Rightarrow> False | Some f \<Rightarrow> IsCallable f)"

text \<open>
  Plain data: a value that holds, at any depth of its arrays and objects, no BigInt, no
  reference back into itself and no object with a \<^verbatim>\<open>toJSON\<close> method.
\<close>

fun plain_data :: "jsval \<Rightarrow> bool" where
  "plain_data (JBigInt n) = False"
| "plain_data JBackRef = False"
| "plain_data (JArr xs) = (\<forall>x \<in> set xs. plain_data x)"
| "plain_data (JObj ps) = (\<not> has_toJSON_method ps \<and> (\<forall>p \<in> set ps. plain_data (snd p)))"
| "plain_data v = True"

text \<open>The values that have no JSON text.\<close>

definition no_json_text :: "jsval \<Rightarrow> bool" where
  "no_json_text v = (v = JUndefined \<or> v = JSymbol \<or> IsCallable v)"
subsection \<open>The execution store behind a world handle\<close>

record Event =
  eventType :: string
  correlationId :: "string option"
  event_runId :: string

record WorkflowRun =
  runId :: string
  workflowName :: string
  deploymentId :: string

text \<open>
  The calls that \<^verbatim>\<open>wakeUpRun\<close> makes on a world: \<^verbatim>\<open>runs.get(runId)\<close>,
  \<^verbatim>\<open>events.list({runId, pagination: {limit}})\<close>,
  \<^verbatim>\<open>events.create(runId, {eventType, correlationId})\<close> and
  \<^verbatim>\<open>queue(queueName, {runId}, {deploymentId})\<close>.
\<close>

datatype world_call =
    RunsGet string
  | EventsList string nat
  | EventsCreate string string string
  | Queue string string string

text \<open>How a call ended: the store returned, or it raised.\<close>

datatype outcome = Accepted | Failed

text \<open>
  Modelled from the spec: the \<^verbatim>\<open>World\<close> interface is declared in the world package and
  implemented by the backends, none of which is among the sources. A world is modelled by
  the runs and events it stores, by the calls it has received so far with their outcomes
  (oldest first), and by \<open>w_fault\<close>, which says for the calls received so far and a new
  call whether the store fails that call and with which error. A call that does not fail
  behaves as the spec's interface says: \<^verbatim>\<open>runs.get\<close> returns the run or raises the
  run-not-found error, \<^verbatim>\<open>events.list\<close> returns the first page of the run's events,
  \<^verbatim>\<open>events.create\<close> appends the event, \<^verbatim>\<open>queue\<close> accepts the message.
\<close>

record world =
  w_runs :: "string \<Rightarrow> WorkflowRun option"
  w_events :: "Event list"
  w_calls :: "(world_call \<times> outcome) list"
  w_fault :: "(world_call \<times> outcome) list \<Rightarrow> world_call \<Rightarrow> raised option"

definition received :: "world_call \<Rightarrow> outcome \<Rightarrow> world \<Rightarrow> world" where
  "received c out w = w\<lparr>w_calls := w_calls w @ [(c, out)]\<rparr>"

text \<open>
  Modelled from the spec: \<^verbatim>\<open>runs.get(id)\<close> of the world interface. It returns the run,
  raises the run-not-found error when the store has no such run, or fails as \<open>w_fault\<close>
  says.
\<close>

definition runs_get :: "string \<Rightarrow> world \<Rightarrow> (raised + WorkflowRun) \<times> world" where
  "runs_get rid w =
     (case w_fault w (w_calls w) (RunsGet rid) of
        Some e \<Rightarrow> (Inl e, received (RunsGet rid) Failed w)
      | None \<Rightarrow>
         (case w_runs w rid of
            None \<Rightarrow> (Inl (WorkflowRunNotFoundError (''Workflow run '' @ rid @ '' not found'') None),
                      received (RunsGet rid) Failed w)
          | Some run \<Rightarrow> (Inr run, received (RunsGet rid) Accepted w)))"

text \<open>
  Modelled from the spec: \<^verbatim>\<open>events.list\<close> of the world interface, for a run and a page
  limit. It returns the first page of the run's events, in the order of the store.
\<close>

definition events_list :: "string \<Rightarrow> nat \<Rightarrow> world \<Rightarrow> (raised + Event list) \<times> world" where
  "events_list rid limit w =
     (case w_fault w (w_calls w) (EventsList rid limit) of
        Some e \<Rightarrow> (Inl e, received (EventsList rid limit) Failed w)
      | None \<Rightarrow> (Inr (take limit (filter (\<lambda>e. event_runId e = rid) (w_events w))),
                 received (EventsList rid limit) Accepted w))"

text \<open>
  Modelled from the spec: \<^verbatim>\<open>events.create\<close> of the world interface. An accepted call
  appends the event to the events of the store.
\<close>

definition events_create :: "string \<Rightarrow> string \<Rightarrow> string \<Rightarrow> world \<Rightarrow> (raised + unit) \<times> world" where
  "events_create rid etype corr w =
     (case w_fault w (w_calls w) (EventsCreate rid etype corr) of
        Some e \<Rightarrow> (Inl e, received (EventsCreate rid etype corr) Failed w)
      | None \<Rightarrow> (Inr (),
                 received (EventsCreate rid etype corr) Accepted
                   (w\<lparr>w_events := w_events w
                        @ [\<lparr>eventType = etype, correlationId = Some corr, event_runId = rid\<rparr>]\<rparr>)))"

text \<open>
  Modelled from the spec: \<^verbatim>\<open>queue\<close> of the world interface (the spec's enqueue), with
  the queue name, the run id of the payload and the deployment id of the options.
\<close>

definition queue :: "string \<Rightarrow> string \<Rightarrow> string \<Rightarrow> world \<Rightarrow> (raised + unit) \<times> world" where
  "queue queueName rid deployment w =
     (case w_fault w (w_calls w) (Queue queueName rid deployment) of
        Some e \<Rightarrow> (Inl e, received (Queue queueName rid deployment) Failed w)
      | None \<Rightarrow> (Inr (), received (Queue queueName rid deployment) Accepted w))"

subsection \<open>World cache\<close>

text \<open>
  The module state: the \<^verbatim>\<open>worldCache\<close> map from cache keys to world instances,
  \<^verbatim>\<open>process.env\<close>, and the heap of world instances. A world instance is identified by its
  reference (a number); \<open>worldsCreated\<close> counts the instances allocated so far and
  \<open>stores\<close> gives the execution store that an instance talks to.
\<close>

record state =
  worldCache :: "string \<Rightarrow> nat option"
  processEnv :: process_env
  worldsCreated :: nat
  stores :: "nat \<Rightarrow> world"

text \<open>
  Modelled from the spec: \<^verbatim>\<open>createWorld\<close> is imported from the core runtime package,
  which is not among the sources. By the spec it constructs a new connection handle from
  the ambient process configuration, and a construction failure propagates to the caller.
  The parameter \<open>construction_fails\<close> says for which process environments construction
  fails, and with which error.
\<close>

definition createWorld :: "(process_env \<Rightarrow> raised option) \<Rightarrow> state \<Rightarrow> (raised + nat) \<times> state" where
  "createWorld construction_fails s =
     (case construction_fails (processEnv s) of
        Some e \<Rightarrow> (Inl e, s)
      | None \<Rightarrow> (Inr (worldsCreated s), s\<lparr>worldsCreated := Suc (worldsCreated s)\<rparr>))"

text \<open>
  The loop that writes every non-empty value of the effective map to \<^verbatim>\<open>process.env\<close>.
  An assignment to \<^verbatim>\<open>process.env\<close> goes through the environment of the process, whose
  names and values are C strings: a name and a value are kept up to their first NUL
  character, and an assignment to the empty name or to a name with an equals sign is
  refused by the environment and changes nothing.
\<close>

definition c_string :: "string \<Rightarrow> string" where
  "c_string v = takeWhile (\<lambda>c. c \<noteq> CHR 0x00) v"

definition set_env_entry :: "process_env \<Rightarrow> string \<times> string option \<Rightarrow> process_env" where
  "set_env_entry penv kv =
     (case snd kv of None \<Rightarrow> penv
      | Some v \<Rightarrow>
         if v = '''' then penv
         else if c_string (fst kv) = '''' \<or> CHR ''='' \<in> set (c_string (fst kv)) then penv
         else penv(c_string (fst kv) \<mapsto> c_string v))"

definition apply_env :: "EnvMap \<Rightarrow> process_env \<Rightarrow> process_env" where
  "apply_env eff penv = foldl set_env_entry penv (Object_entries eff)"

definition getWorldFromEnv ::
  "(process_env \<Rightarrow> raised option) \<Rightarrow> EnvMap \<Rightarrow> state \<Rightarrow> (raised + nat) \<times> state" where
  "getWorldFromEnv construction_fails envMap s =
     (let eff = effectiveEnvMap (processEnv s) envMap;
          key = cacheKey (processEnv s) envMap
      in case worldCache s key of
           Some cachedWorld \<Rightarrow> (Inr cachedWorld, s)
         | None \<Rightarrow>
            (case createWorld construction_fails (s\<lparr>processEnv := apply_env eff (processEnv s)\<rparr>) of
               (Inl e, s') \<Rightarrow> (Inl e, s')
             | (Inr world, s') \<Rightarrow> (Inr world, s'\<lparr>worldCache := (worldCache s')(key \<mapsto> world)\<rparr>)))"

subsection \<open>Waking up a run\<close>

text \<open>\<^verbatim>\<open>interface StopSleepOptions { correlationIds?: string[] }\<close>\<close>

record StopSleepOptions =
  correlationIds :: "string list option"

text \<open>\<^verbatim>\<open>options?.correlationIds && options.correlationIds.length > 0\<close>\<close>

definition target_filter_given :: "StopSleepOptions option \<Rightarrow> bool" where
  "target_filter_given options =
     (case options of None \<Rightarrow> False
      | Some opts \<Rightarrow> (case correlationIds opts of None \<Rightarrow> False | Some ids \<Rightarrow> length ids > 0))"

definition target_ids :: "StopSleepOptions option \<Rightarrow> string list" where
  "target_ids options =
     (case options of None \<Rightarrow> []
      | Some opts \<Rightarrow> (case correlationIds opts of None \<Rightarrow> [] | Some ids \<Rightarrow> ids))"

text \<open>The pending waits that \<^verbatim>\<open>wakeUpRun\<close> computes from the listed events.\<close>

definition pendingWaits :: "Event list \<Rightarrow> StopSleepOptions option \<Rightarrow> Event list" where
  "pendingWaits data options =
     (let waitCreatedEvents = filter (\<lambda>e. eventType e = ''wait_created'') data;
          waitCompletedCorrelationIds =
            set (map correlationId (filter (\<lambda>e. eventType e = ''wait_completed'') data));
          pending = filter (\<lambda>e. correlationId e \<notin> waitCompletedCorrelationIds) waitCreatedEvents
      in if target_filter_given options
         then filter (\<lambda>e. truthy_string (correlationId e)
                          \<and> the (correlationId e) \<in> set (target_ids options)) pending
         else pending)"

text \<open>
  The loop over the pending waits: one awaited \<^verbatim>\<open>events.create\<close> for each wait with a
  truthy correlation id, in order; the first failure leaves the loop.
\<close>

fun create_completions :: "string \<Rightarrow> Event list \<Rightarrow> world \<Rightarrow> (raised + unit) \<times> world" where
  "create_completions rid [] w = (Inr (), w)"
| "create_completions rid (waitEvent # rest) w =
     (if truthy_string (correlationId waitEvent)
      then (case events_create rid ''wait_completed'' (the (correlationId waitEvent)) w of
              (Inl e, w') \<Rightarrow> (Inl e, w')
            | (Inr u, w') \<Rightarrow> create_completions rid rest w')
      else create_completions rid rest w)"

text \<open>
  The body of \<^verbatim>\<open>wakeUpRun\<close> from \<^verbatim>\<open>world.runs.get\<close> to the value
  \<^verbatim>\<open>pendingWaits.length\<close>, as a function of the world it works on: every call is awaited,
  and a call that raises leaves the body with its error.
\<close>

definition wake_world :: "string \<Rightarrow> StopSleepOptions option \<Rightarrow> world \<Rightarrow> (raised + nat) \<times> world" where
  "wake_world rid options w =
     (case runs_get rid w of
        (Inl e, w1) \<Rightarrow> (Inl e, w1)
      | (Inr run, w1) \<Rightarrow>
         (case events_list rid 1000 w1 of
            (Inl e, w2) \<Rightarrow> (Inl e, w2)
          | (Inr data, w2) \<Rightarrow>
             (let pending = pendingWaits data options in
              case create_completions rid pending w2 of
                (Inl e, w3) \<Rightarrow> (Inl e, w3)
              | (Inr u, w3) \<Rightarrow>
                 (if length pending > 0
                  then (case queue (''__wkf_workflow_'' @ workflowName run) rid (deploymentId run) w3 of
                          (Inl e, w4) \<Rightarrow> (Inl e, w4)
                        | (Inr u', w4) \<Rightarrow> (Inr (length pending), w4))
                  else (Inr (length pending), w3)))))"

text \<open>The parameters that the \<^verbatim>\<open>catch\<close> clause of \<^verbatim>\<open>wakeUpRun\<close> reports.\<close>

definition wakeUpRun_params :: "string \<Rightarrow> StopSleepOptions option \<Rightarrow> (string \<times> jsval) list" where
  "wakeUpRun_params rid options =
     [(''runId'', JStr rid),
      (''correlationIds'',
         (case options of None \<Rightarrow> JUndefined
          | Some opts \<Rightarrow> (case correlationIds opts of None \<Rightarrow> JUndefined
                         | Some ids \<Rightarrow> JArr (map JStr ids))))]"

text \<open>
  The \<^verbatim>\<open>try\<close> block of \<^verbatim>\<open>wakeUpRun\<close>. The copy \<^verbatim>\<open>{ ...worldEnv }\<close> that it hands to
  \<^verbatim>\<open>getWorldFromEnv\<close> has the properties of \<^verbatim>\<open>worldEnv\<close> in the same order. The response
  data \<^verbatim>\<open>{ stoppedCount: pendingWaits.length }\<close> goes through \<^verbatim>\<open>createResponse\<close>, inside
  the \<^verbatim>\<open>try\<close>.
\<close>

definition wakeUpRun_try ::
  "(process_env \<Rightarrow> raised option) \<Rightarrow> EnvMap \<Rightarrow> string \<Rightarrow> StopSleepOptions option \<Rightarrow> state
     \<Rightarrow> (raised + jsval ServerActionResult) \<times> state" where
  "wakeUpRun_try construction_fails worldEnv rid options s =
     (case getWorldFromEnv construction_fails worldEnv s of
        (Inl e, s1) \<Rightarrow> (Inl e, s1)
      | (Inr world, s1) \<Rightarrow>
         (case wake_world rid options (stores s1 world) of
            (Inl e, w') \<Rightarrow> (Inl e, s1\<lparr>stores := (stores s1)(world := w')\<rparr>)
          | (Inr n, w') \<Rightarrow>
             (createResponse (JObj [(''stoppedCount'', JNum (int n))]),
              s1\<lparr>stores := (stores s1)(world := w')\<rparr>)))"

definition wakeUpRun ::
  "(process_env \<Rightarrow> raised option) \<Rightarrow> EnvMap \<Rightarrow> string \<Rightarrow> StopSleepOptions option \<Rightarrow> state
     \<Rightarrow> jsval ServerActionResult \<times> state" where
  "wakeUpRun construction_fails worldEnv rid options s =
     (case wakeUpRun_try construction_fails worldEnv rid options s of
        (Inl error, s') \<Rightarrow>
          (createServerActionError error ''wakeUpRun'' (Some (wakeUpRun_params rid options)), s')
      | (Inr response, s') \<Rightarrow> (response, s'))"

subsection \<open>Notions used to state the claims on the cache and on waking up\<close>


text \<open>
  The state of the cache is consistent when every cached instance has been allocated and
  distinct cache keys hold distinct instances. The state at module load, with its empty
  cache, is consistent.
\<close>

definition cache_consistent :: "state \<Rightarrow> bool" where
  "cache_consistent s =
     ((\<forall>k w. worldCache s k = Some w \<longrightarrow> w < worldsCreated s)
      \<and> (\<forall>k k' w. worldCache s k = Some w \<and> worldCache s k' = Some w \<longrightarrow> k = k'))"

text \<open>Any number of further calls of \<^verbatim>\<open>getWorldFromEnv\<close>, whatever they return.\<close>

fun get_worlds :: "(process_env \<Rightarrow> raised option) \<Rightarrow> EnvMap list \<Rightarrow> state \<Rightarrow> state" where
  "get_worlds construction_fails [] s = s"
| "get_worlds construction_fails (envMap # rest) s =
     get_worlds construction_fails rest (snd (getWorldFromEnv construction_fails envMap s))"

text \<open>A state at module load: nothing cached, nothing allocated.\<close>

definition module_load :: "process_env \<Rightarrow> (nat \<Rightarrow> world) \<Rightarrow> state" where
  "module_load penv backends =
     \<lparr> worldCache = (\<lambda>k. None), processEnv = penv, worldsCreated = 0, stores = backends \<rparr>"

text \<open>
  Example data, after the wake-up examples of the spec: a run with the events
  \<^verbatim>\<open>wait_created(A)\<close>, \<^verbatim>\<open>wait_created(B)\<close>, \<^verbatim>\<open>wait_completed(A)\<close> in a store that fails
  no call, a process environment without settings, and a world construction that never
  fails.
\<close>

definition example_run :: WorkflowRun where
  "example_run = \<lparr> runId = ''run_1'', workflowName = ''orderFlow'', deploymentId = ''dpl_1'' \<rparr>"

definition example_events :: "Event list" where
  "example_events =
     [\<lparr> eventType = ''wait_created'', correlationId = Some ''A'', event_runId = ''run_1'' \<rparr>,
      \<lparr> eventType = ''wait_created'', correlationId = Some ''B'', event_runId = ''run_1'' \<rparr>,
      \<lparr> eventType = ''wait_completed'', correlationId = Some ''A'', event_runId = ''run_1'' \<rparr>]"

definition example_world :: world where
  "example_world =
     \<lparr> w_runs = (\<lambda>rid. if rid = ''run_1'' then Some example_run else None),
       w_events = example_events,
       w_calls = [],
       w_fault = (\<lambda>calls c. None) \<rparr>"

definition no_settings :: process_env where
  "no_settings = (\<lambda>name. None)"

definition never_fails :: "process_env \<Rightarrow> raised option" where
  "never_fails = (\<lambda>penv. None)"

definition example_state :: state where
  "example_state = module_load no_settings (\<lambda>world. example_world)"

text \<open>
  The first page of a run's events, as \<^verbatim>\<open>events.list\<close> with limit 1000 returns it.
\<close>

definition first_page :: "string \<Rightarrow> world \<Rightarrow> Event list" where
  "first_page rid w = take 1000 (filter (\<lambda>e. event_runId e = rid) (w_events w))"

text \<open>A wait that lacks a correlation id: the id is \<^verbatim>\<open>undefined\<close> or empty.\<close>

definition lacks_correlationId :: "Event \<Rightarrow> bool" where
  "lacks_correlationId e = (correlationId e = None \<or> correlationId e = Some '''')"

text \<open>
  The pending waits as claim C1 words them: the \<^verbatim>\<open>wait_created\<close> events whose
  correlation id is not among those carried by \<^verbatim>\<open>wait_completed\<close> events, restricted to
  the supplied target ids when that list is given and non-empty.
\<close>

definition claimed_pending :: "Event list \<Rightarrow> StopSleepOptions option \<Rightarrow> Event list" where
  "claimed_pending data options =
     filter (\<lambda>e. eventType e = ''wait_created''
                \<and> correlationId e \<notin> set (map correlationId
                      (filter (\<lambda>c. eventType c = ''wait_completed'') data))
                \<and> (target_filter_given options
                     \<longrightarrow> correlationId e \<in> set (map Some (target_ids options)))) data"

text \<open>
  The pending waits of the amended claim: under a target list, only waits that carry a
  non-empty correlation id contained in the list.
\<close>

definition pending_spec :: "Event list \<Rightarrow> StopSleepOptions option \<Rightarrow> Event list" where
  "pending_spec data options =
     filter (\<lambda>e. eventType e = ''wait_created''
                \<and> correlationId e \<notin> set (map correlationId
                      (filter (\<lambda>c. eventType c = ''wait_completed'') data))
                \<and> (target_filter_given options
                     \<longrightarrow> \<not> lacks_correlationId e
                         \<and> correlationId e \<in> set (map Some (target_ids options)))) data"

text \<open>
  The \<^verbatim>\<open>wait_completed\<close> events and the \<^verbatim>\<open>events.create\<close> calls for a list of waits: one
  for each wait that carries a non-empty correlation id, with that id.
\<close>

definition completion_events :: "string \<Rightarrow> Event list \<Rightarrow> Event list" where
  "completion_events rid waits =
     map (\<lambda>e. \<lparr> eventType = ''wait_completed'', correlationId = correlationId e, event_runId = rid \<rparr>)
         (filter (\<lambda>e. \<not> lacks_correlationId e) waits)"

definition create_calls :: "string \<Rightarrow> Event list \<Rightarrow> world_call list" where
  "create_calls rid waits =
     map (\<lambda>e. EventsCreate rid ''wait_completed'' (the (correlationId e)))
         (filter (\<lambda>e. \<not> lacks_correlationId e) waits)"

text \<open>The dispatch message for a run: the queue is named after the workflow.\<close>

definition dispatch_call :: "WorkflowRun \<Rightarrow> string \<Rightarrow> world_call" where
  "dispatch_call run rid = Queue (''__wkf_workflow_'' @ workflowName run) rid (deploymentId run)"

fun is_queue_call :: "world_call \<Rightarrow> bool" where
  "is_queue_call (Queue q r d) = True"
| "is_queue_call c = False"

fun is_create_call :: "world_call \<Rightarrow> bool" where
  "is_create_call (EventsCreate r t c) = True"
| "is_create_call c = False"

text \<open>The data of a successful wake-up: \<^verbatim>\<open>{ stoppedCount: n }\<close>.\<close>

definition stopped :: "nat \<Rightarrow> jsval" where
  "stopped n = JObj [(''stoppedCount'', JNum (int n))]"

text \<open>The calls that a world received between two states of it.\<close>

definition new_calls :: "world \<Rightarrow> world \<Rightarrow> (world_call \<times> outcome) list" where
  "new_calls w w' = drop (length (w_calls w)) (w_calls w')"

text \<open>
  More example stores. One whose run has a single pending wait with the empty correlation
  id. One whose run has a \<^verbatim>\<open>run_started\<close> event and two pending waits that lack a
  correlation id, the first without one and the second with the empty one. And the store
  of the first example, but failing every \<^verbatim>\<open>events.create\<close> call.
\<close>

definition empty_id_world :: world where
  "empty_id_world =
     \<lparr> w_runs = (\<lambda>rid. if rid = ''run_1'' then Some example_run else None),
       w_events = [\<lparr> eventType = ''wait_created'', correlationId = Some '''', event_runId = ''run_1'' \<rparr>],
       w_calls = [],
       w_fault = (\<lambda>calls c. None) \<rparr>"

definition empty_id_state :: state where
  "empty_id_state = module_load no_settings (\<lambda>world. empty_id_world)"

definition no_id_events :: "Event list" where
  "no_id_events =
     [\<lparr> eventType = ''run_started'', correlationId = None, event_runId = ''run_1'' \<rparr>,
      \<lparr> eventType = ''wait_created'', correlationId = None, event_runId = ''run_1'' \<rparr>,
      \<lparr> eventType = ''wait_created'', correlationId = Some '''', event_runId = ''run_1'' \<rparr>]"

definition no_id_world :: world where
  "no_id_world =
     \<lparr> w_runs = (\<lambda>rid. if rid = ''run_1'' then Some example_run else None),
       w_events = no_id_events,
       w_calls = [],
       w_fault = (\<lambda>calls c. None) \<rparr>"

definition no_id_state :: state where
  "no_id_state = module_load no_settings (\<lambda>world. no_id_world)"

definition store_unavailable :: raised where
  "store_unavailable = OtherError ''store unavailable'' None"

definition failing_create_world :: world where
  "failing_create_world =
     \<lparr> w_runs = (\<lambda>rid. if rid = ''run_1'' then Some example_run else None),
       w_events = example_events,
       w_calls = [],
       w_fault = (\<lambda>calls c. if is_create_call c then Some store_unavailable else None) \<rparr>"

definition failing_create_state :: state where
  "failing_create_state = module_load no_settings (\<lambda>world. failing_create_world)"

definition only_id :: "string \<Rightarrow> StopSleepOptions option" where
  "only_id c = Some \<lparr> correlationIds = Some [c] \<rparr>"

subsection \<open>Auxiliary notions used in the proofs\<close>

text \<open>A property whose value is not \<^verbatim>\<open>undefined\<close>, and the length an entry adds to the serialized object.\<close>

definition defined_value :: "string \<times> string option \<Rightarrow> bool" where
  "defined_value p = (snd p \<noteq> None)"

definition item_weight :: "string \<times> string option \<Rightarrow> nat" where
  "item_weight p = (case snd p of None \<Rightarrow> 0
     | Some s \<Rightarrow> Suc (length (QuoteJSONString (fst p) @ '':'' @ QuoteJSONString s)))"

section \<open>Properties\<close>

subsection \<open>Config resolver\<close>


lemma foldl_define_property_distinct:
  "distinct (map fst (acc @ es)) \<Longrightarrow> foldl define_property acc es = acc @ es"
proof (induction es arbitrary: acc)
  case Nil
  then show ?case by simp
next
  case (Cons e es)
  have "fst e \<notin> set (map fst acc)" using Cons.prems by auto
  then have step: "define_property acc e = acc @ [e]" by (simp add: define_property_def)
  have "distinct (map fst ((acc @ [e]) @ es))" using Cons.prems by simp
  from Cons.IH[OF this] step show ?case by simp
qed

lemma Object_fromEntries_distinct:
  "distinct (map fst es) \<Longrightarrow> Object_fromEntries es = own_property_order es"
  using foldl_define_property_distinct[of "[]" es] by (simp add: Object_fromEntries_def)

lemma sort_keys_eq:
  assumes "distinct (map fst m1)" "distinct (map fst m2)" "set m1 = set m2"
  shows "sort (Object_keys m1) = sort (Object_keys m2)"
proof -
  have "set (map fst m1) = set (map fst m2)" using assms(3) by simp
  then show ?thesis unfolding Object_keys_def
    using assms(1,2) by (intro sorted_distinct_set_unique) simp_all
qed

lemma get_prop_eq:
  assumes "distinct (map fst m1)" "distinct (map fst m2)" "set m1 = set m2"
  shows "get_prop m1 = get_prop m2"
proof -
  have "map_of m1 = map_of m2" using assms by (simp add: map_of_inject_set)
  then show ?thesis by (simp add: get_prop_def fun_eq_iff)
qed

lemma cacheKeyOf_order:
  assumes "distinct (map fst m1)" "distinct (map fst m2)" "set m1 = set m2"
  shows "cacheKeyOf m1 = cacheKeyOf m2"
  by (simp add: cacheKeyOf_def sort_keys_eq[OF assms] get_prop_eq[OF assms])

text \<open>
  Claim C3. Two configuration mappings that hold the same key/value pairs, inserted in
  different orders, get the same cache key from the config resolver, whatever the
  process environment is.
\<close>

theorem fingerprint_order_independent:
  assumes "distinct (map fst m1)" "distinct (map fst m2)" "set m1 = set m2"
  shows "cacheKey penv m1 = cacheKey penv m2"
  using cacheKeyOf_order[OF assms] by (simp add: cacheKey_def effectiveEnvMap_def)

lemma buildEnvMapFromProcessEnv_map:
  "buildEnvMapFromProcessEnv penv = map (\<lambda>k. (k, penv k)) server_env_names"
  by (simp add: buildEnvMapFromProcessEnv_def server_env_names_def)

lemma hasServerConfig_iff:
  "hasServerConfig penv \<longleftrightarrow> (\<exists>k \<in> set server_env_names. \<exists>v. penv k = Some v \<and> v \<noteq> '''')"
proof -
  have "hasServerConfig penv \<longleftrightarrow>
          (\<exists>k \<in> set server_env_names. penv k \<noteq> None \<and> penv k \<noteq> Some '''')"
    unfolding hasServerConfig_def Object_values_def buildEnvMapFromProcessEnv_map
    by (simp add: list_ex_iff comp_def)
  also have "\<dots> \<longleftrightarrow> (\<exists>k \<in> set server_env_names. \<exists>v. penv k = Some v \<and> v \<noteq> '''')"
    by (metis option.exhaust option.inject option.distinct(1))
  finally show ?thesis .
qed

text \<open>
  Claim C5. When at least one of the named process-wide settings is present and not
  empty, the effective configuration is the process-wide set and the caller's mapping
  is ignored entirely: the cache key and the whole of \<^verbatim>\<open>getWorldFromEnv\<close> are the same
  for every caller mapping. Only when every one of the named settings is absent or empty
  is the caller's mapping the effective configuration.
\<close>

theorem config_precedence:
  "effectiveEnvMap penv envMap =
     (if \<exists>k \<in> set server_env_names. \<exists>v. penv k = Some v \<and> v \<noteq> ''''
      then map (\<lambda>k. (k, penv k)) server_env_names else envMap)
   \<and> ((\<exists>k \<in> set server_env_names. \<exists>v. penv k = Some v \<and> v \<noteq> '''') \<longrightarrow>
        cacheKey penv envMap' = cacheKey penv envMap
        \<and> (processEnv s = penv \<longrightarrow> getWorldFromEnv cf envMap' s = getWorldFromEnv cf envMap s))"
proof -
  have "effectiveEnvMap penv envMap =
     (if \<exists>k \<in> set server_env_names. \<exists>v. penv k = Some v \<and> v \<noteq> ''''
      then map (\<lambda>k. (k, penv k)) server_env_names else envMap)"
    unfolding effectiveEnvMap_def hasServerConfig_iff buildEnvMapFromProcessEnv_map by (rule refl)
  moreover have "cacheKey penv envMap' = cacheKey penv envMap"
    and "processEnv s = penv \<longrightarrow> getWorldFromEnv cf envMap' s = getWorldFromEnv cf envMap s"
    if "\<exists>k \<in> set server_env_names. \<exists>v. penv k = Some v \<and> v \<noteq> ''''"
  proof -
    from that have h: "hasServerConfig penv" by (simp only: hasServerConfig_iff)
    then show "cacheKey penv envMap' = cacheKey penv envMap"
      by (simp add: cacheKey_def effectiveEnvMap_def)
    from h show "processEnv s = penv \<longrightarrow> getWorldFromEnv cf envMap' s = getWorldFromEnv cf envMap s"
      by (simp add: getWorldFromEnv_def cacheKey_def effectiveEnvMap_def)
  qed
  ultimately show ?thesis by blast
qed

theorem config_precedence_witness:
  "effectiveEnvMap ((\<lambda>_. None)(''PORT'' \<mapsto> ''3000'')) [(''WORKFLOW_TARGET_WORLD'', Some ''local'')]
     = map (\<lambda>k. (k, ((\<lambda>_. None)(''PORT'' \<mapsto> ''3000'')) k)) server_env_names
   \<and> cacheKey ((\<lambda>_. None)(''PORT'' \<mapsto> ''3000'')) []
     = cacheKey ((\<lambda>_. None)(''PORT'' \<mapsto> ''3000'')) [(''WORKFLOW_TARGET_WORLD'', Some ''local'')]
   \<and> effectiveEnvMap ((\<lambda>_. None)(''PORT'' \<mapsto> '''')) [(''WORKFLOW_TARGET_WORLD'', Some ''local'')]
     = [(''WORKFLOW_TARGET_WORLD'', Some ''local'')]"
proof -
  have a: "\<exists>k \<in> set server_env_names. \<exists>v. ((\<lambda>_. None)(''PORT'' \<mapsto> ''3000'')) k = Some v \<and> v \<noteq> ''''"
    by (rule bexI[of _ "''PORT''"]) (simp_all add: server_env_names_def)
  have b: "\<not> (\<exists>k \<in> set server_env_names. \<exists>v. ((\<lambda>_. None)(''PORT'' \<mapsto> '''')) k = Some v \<and> v \<noteq> '''')"
    by simp
  note c1 = config_precedence[where penv = "(\<lambda>_. None)(''PORT'' \<mapsto> ''3000'')"
      and envMap = "[(''WORKFLOW_TARGET_WORLD'', Some ''local'')]" and envMap' = "[]"]
  note c2 = config_precedence[where penv = "(\<lambda>_. None)(''PORT'' \<mapsto> '''')"
      and envMap = "[(''WORKFLOW_TARGET_WORLD'', Some ''local'')]", THEN conjunct1]
  have "cacheKey ((\<lambda>_. None)(''PORT'' \<mapsto> ''3000'')) []
     = cacheKey ((\<lambda>_. None)(''PORT'' \<mapsto> ''3000'')) [(''WORKFLOW_TARGET_WORLD'', Some ''local'')]"
    using c1 a by blast
  then show ?thesis
    using c1[THEN conjunct1, unfolded if_P[OF a]] c2[unfolded if_not_P[OF b]] by blast
qed

theorem fingerprint_order_independent_witness:
  "cacheKey (\<lambda>_. None) [(''B'', Some ''2''), (''A'', Some ''1'')]
     = cacheKey (\<lambda>_. None) [(''A'', Some ''1''), (''B'', Some ''2'')]"
  by (rule fingerprint_order_independent) auto



subsection \<open>The fingerprint keeps empty strings and drops \<^verbatim>\<open>undefined\<close>\<close>


lemma map_insort_key:
  "map f (insort_key f x ys) = insort (f x) (map f ys)"
  by (induction ys) simp_all

lemma map_sort_key: "map f (sort_key f xs) = sort (map f xs)"
  by (induction xs) (simp_all add: map_insort_key)

lemma get_prop_own:
  "distinct (map fst m) \<Longrightarrow> p \<in> set m \<Longrightarrow> get_prop m (fst p) = snd p"
  by (cases p) (simp add: get_prop_def)

lemma sortedEntries_sort_key:
  assumes "distinct (map fst m)"
  shows "map (\<lambda>key. (key, get_prop m key)) (sort (Object_keys m)) = sort_key fst m"
proof -
  have "map (\<lambda>key. (key, get_prop m key)) (sort (Object_keys m))
          = map (\<lambda>p. (fst p, get_prop m (fst p))) (sort_key fst m)"
    by (simp add: Object_keys_def map_sort_key[symmetric] comp_def)
  also have "\<dots> = map (\<lambda>p. p) (sort_key fst m)"
    by (rule map_cong) (simp_all add: get_prop_own[OF assms])
  finally show ?thesis by simp
qed

lemma cacheKeyOf_sort_key:
  assumes "distinct (map fst m)"
  shows "cacheKeyOf m = JSON_stringify_env (own_property_order (sort_key fst m))"
proof -
  have "distinct (map fst (sort_key fst m))"
    using assms by (simp add: map_sort_key)
  then show ?thesis
    by (simp add: cacheKeyOf_def sortedEntries_sort_key[OF assms] Object_fromEntries_distinct)
qed

lemma own_property_order_filter:
  "own_property_order (filter P xs) = filter P (own_property_order xs)"
proof -
  have "filter Q (filter P xs) = filter P (filter Q xs)" for Q
    by (induction xs) simp_all
  then show ?thesis
    by (simp add: own_property_order_def filter_sort)
qed

lemma JSON_stringify_env_filter:
  "JSON_stringify_env (filter defined_value obj) = JSON_stringify_env obj"
proof -
  have "concat (map (\<lambda>(k, v). case v of None \<Rightarrow> []
              | Some s \<Rightarrow> [QuoteJSONString k @ '':'' @ QuoteJSONString s]) (filter defined_value obj))
      = concat (map (\<lambda>(k, v). case v of None \<Rightarrow> []
              | Some s \<Rightarrow> [QuoteJSONString k @ '':'' @ QuoteJSONString s]) obj)"
    by (induction obj) (auto simp: defined_value_def)
  then show ?thesis by (simp add: JSON_stringify_env_def)
qed

lemma cacheKeyOf_defined:
  assumes "distinct (map fst m)"
  shows "cacheKeyOf (filter defined_value m) = cacheKeyOf m"
proof -
  have d: "distinct (map fst (filter defined_value m))"
    using assms by (simp add: distinct_map_filter)
  have "cacheKeyOf (filter defined_value m)
          = JSON_stringify_env (filter defined_value (own_property_order (sort_key fst m)))"
    by (simp add: cacheKeyOf_sort_key[OF d] filter_sort[symmetric] own_property_order_filter)
  then show ?thesis
    by (simp add: JSON_stringify_env_filter cacheKeyOf_sort_key[OF assms])
qed

lemma fingerprint_undefined_as_absent:
  assumes "distinct (map fst (m1 @ (k, None) # m2))"
  shows "cacheKeyOf (m1 @ (k, None) # m2) = cacheKeyOf (m1 @ m2)"
proof -
  have d: "distinct (map fst (m1 @ m2))" using assms by simp
  have "filter defined_value (m1 @ (k, None) # m2) = filter defined_value (m1 @ m2)"
    by (simp add: defined_value_def)
  then show ?thesis
    using cacheKeyOf_defined[OF assms] cacheKeyOf_defined[OF d] by simp
qed

lemma length_join: "length (join '','' xs) = sum_list (map (\<lambda>x. Suc (length x)) xs) - 1"
  by (induction "'',''" xs rule: join.induct) simp_all

lemma length_JSON_stringify_env:
  "length (JSON_stringify_env obj) = 2 + (sum_list (map item_weight obj) - 1)"
proof -
  have "sum_list (map (\<lambda>x. Suc (length x)) (concat (map (\<lambda>(k, v). case v of None \<Rightarrow> []
              | Some s \<Rightarrow> [QuoteJSONString k @ '':'' @ QuoteJSONString s]) obj)))
        = sum_list (map item_weight obj)"
    by (induction obj) (auto simp: item_weight_def split: option.splits)
  then show ?thesis
    by (simp add: JSON_stringify_env_def length_join)
qed

lemma sum_list_insort_key:
  "sum_list (map w (insort_key f x xs)) = w x + sum_list (map (w :: 'a \<Rightarrow> nat) xs)"
  by (induction xs) simp_all

lemma sum_list_sort_key:
  "sum_list (map w (sort_key f xs)) = sum_list (map (w :: 'a \<Rightarrow> nat) xs)"
  by (induction xs) (simp_all add: sum_list_insort_key)

lemma sum_list_filter_split:
  "sum_list (map w (filter P xs)) + sum_list (map w (filter (\<lambda>x. \<not> P x) xs))
     = sum_list (map (w :: 'a \<Rightarrow> nat) xs)"
  by (induction xs) simp_all

lemma sum_list_own_property_order:
  "sum_list (map w (own_property_order xs)) = sum_list (map (w :: (string \<times> 'v) \<Rightarrow> nat) xs)"
  using sum_list_filter_split[of w "\<lambda>p. array_index (fst p) \<noteq> None" xs]
  by (simp add: own_property_order_def sum_list_sort_key)

lemma length_cacheKeyOf:
  assumes "distinct (map fst m)"
  shows "length (cacheKeyOf m) = 2 + (sum_list (map item_weight m) - 1)"
  by (simp add: cacheKeyOf_sort_key[OF assms] length_JSON_stringify_env
      sum_list_own_property_order sum_list_sort_key)

lemma cacheKeyOf_defined_differs:
  assumes "distinct (map fst (m1 @ (k, Some s) # m2))"
  shows "cacheKeyOf (m1 @ (k, Some s) # m2) \<noteq> cacheKeyOf (m1 @ m2)"
proof -
  have d: "distinct (map fst (m1 @ m2))" using assms by simp
  have "item_weight (k, Some s) \<ge> 2"
    by (simp add: item_weight_def QuoteJSONString_def)
  then have "length (cacheKeyOf (m1 @ (k, Some s) # m2)) > length (cacheKeyOf (m1 @ m2))"
    by (simp add: length_cacheKeyOf[OF assms] length_cacheKeyOf[OF d])
  then show ?thesis by auto
qed

text \<open>
  Claim C8, as amended. In the fingerprint of a mapping (the cache key of the effective
  configuration), a key bound to \<^verbatim>\<open>undefined\<close> counts as not present: the mapping
  with the binding and the mapping without it have the same fingerprint, also as caller
  mappings of the resolver. A key bound to a string, the empty string included, is kept
  and changes the fingerprint.
\<close>

theorem fingerprint_undefined_not_present:
  assumes "distinct (map fst (m1 @ (k, v) # m2))"
  shows "(cacheKeyOf (m1 @ (k, v) # m2) = cacheKeyOf (m1 @ m2) \<longleftrightarrow> v = None)
       \<and> (v = None \<longrightarrow> cacheKey penv (m1 @ (k, v) # m2) = cacheKey penv (m1 @ m2))"
proof (cases v)
  case None
  then have "cacheKeyOf (m1 @ (k, v) # m2) = cacheKeyOf (m1 @ m2)"
    using fingerprint_undefined_as_absent assms by simp
  then show ?thesis using None by (simp add: cacheKey_def effectiveEnvMap_def)
next
  case (Some s)
  then show ?thesis using cacheKeyOf_defined_differs assms by simp
qed

theorem fingerprint_undefined_not_present_witness:
  "distinct (map fst ([(''B'', Some ''x'')] @ (''A'', None) # []))
   \<and> cacheKeyOf ([(''B'', Some ''x'')] @ (''A'', None) # []) = cacheKeyOf ([(''B'', Some ''x'')] @ [])"
  using fingerprint_undefined_not_present[of "[(''B'', Some ''x'')]" "''A''" None "[]"] by simp

text \<open>
  Claim C8 as stated fails: binding \<^verbatim>\<open>A\<close> to the empty string gives the key
  \<^verbatim>\<open>{"A":""}\<close>, and the mapping without \<^verbatim>\<open>A\<close> gives \<^verbatim>\<open>{}\<close>.
\<close>

theorem fingerprint_empty_value_counterexample:
  "cacheKeyOf [(''A'', Some '''')] = [CHR 0x7B, CHR 0x22, CHR ''A'', CHR 0x22, CHR 0x3A, CHR 0x22, CHR 0x22, CHR 0x7D]
   \<and> cacheKeyOf [] = [CHR 0x7B, CHR 0x7D]
   \<and> cacheKeyOf [(''A'', Some '''')] \<noteq> cacheKeyOf []"
  by code_simp

subsection \<open>Response envelope and error classifier\<close>


lemma json_value_not_callable: "json_value v \<Longrightarrow> \<not> IsCallable v"
  by (cases v) simp_all

lemma json_toJSON_None: "\<not> has_toJSON_method ps \<Longrightarrow> json_toJSON ps = None"
  by (induction ps) (auto simp: has_toJSON_method_def split: jsval.splits if_splits)

lemma json_value_no_toJSON:
  "(\<forall>p \<in> set ps. json_value (snd p)) \<Longrightarrow> \<not> has_toJSON_method ps"
  by (induction ps)
     (auto simp: has_toJSON_method_def json_value_not_callable split: option.splits)

lemma json_value_plain_data: "json_value v \<Longrightarrow> plain_data v"
  by (induction v rule: plain_data.induct) (auto simp: json_value_no_toJSON)

lemma json_roundtrip_json_value:
  "json_value v \<Longrightarrow> json_property call v = Inr (Some v)"
  "json_toJSON qs = json_toJSON qs"
  "(\<forall>x \<in> set xs. json_value x) \<Longrightarrow> json_elements xs = Inr xs"
  "(\<forall>p \<in> set ps. json_value (snd p)) \<Longrightarrow> json_members ps = Inr ps"
  by (induction call v and qs and xs and ps
        rule: json_property_json_toJSON_json_elements_json_members.induct)
     (auto simp: json_value_no_toJSON json_toJSON_None)

lemma json_roundtrip_plain_data:
  "plain_data v \<Longrightarrow>
     (no_json_text v \<and> json_property call v = Inr None)
     \<or> (\<not> no_json_text v \<and> (\<exists>d. json_property call v = Inr (Some d) \<and> json_value d))"
  "json_toJSON qs = json_toJSON qs"
  "(\<forall>x \<in> set xs. plain_data x) \<Longrightarrow>
     \<exists>ys. json_elements xs = Inr ys \<and> (\<forall>y \<in> set ys. json_value y) \<and> length ys = length xs
        \<and> (\<forall>i < length xs. no_json_text (xs ! i) \<longrightarrow> ys ! i = JNull)"
  "(\<forall>p \<in> set ps. plain_data (snd p)) \<Longrightarrow>
     \<exists>qs. json_members ps = Inr qs \<and> (\<forall>q \<in> set qs. json_value (snd q))
        \<and> map fst qs = map fst (filter (\<lambda>p. \<not> no_json_text (snd p)) ps)"
proof (induction call v and qs and xs and ps
        rule: json_property_json_toJSON_json_elements_json_members.induct)
  case (15 call ps)
  then have n: "json_toJSON ps = None" by (simp add: json_toJSON_None)
  then have "(if call then json_toJSON ps else None) = None" by simp
  from "15.IH"(2)[OF this] "15.prems"
  obtain qs where "json_members ps = Inr qs" "\<forall>q \<in> set qs. json_value (snd q)"
    by auto
  with n show ?case by (simp add: no_json_text_def)
next
  case (19 x xs)
  then obtain ys where ys: "json_elements xs = Inr ys" "\<forall>y \<in> set ys. json_value y"
    "length ys = length xs" "\<forall>i < length xs. no_json_text (xs ! i) \<longrightarrow> ys ! i = JNull"
    by auto
  from 19 have "(no_json_text x \<and> json_property True x = Inr None)
     \<or> (\<not> no_json_text x \<and> (\<exists>d. json_property True x = Inr (Some d) \<and> json_value d))"
    by simp
  then show ?case
  proof
    assume a: "no_json_text x \<and> json_property True x = Inr None"
    have "\<forall>i < length (x # xs). no_json_text ((x # xs) ! i) \<longrightarrow> (JNull # ys) ! i = JNull"
      using ys(4) by (auto simp: nth_Cons split: nat.splits)
    then show ?thesis using a ys by simp
  next
    assume a: "\<not> no_json_text x \<and> (\<exists>d. json_property True x = Inr (Some d) \<and> json_value d)"
    then obtain d where d: "json_property True x = Inr (Some d)" "json_value d" by auto
    have "\<forall>i < length (x # xs). no_json_text ((x # xs) ! i) \<longrightarrow> (d # ys) ! i = JNull"
      using ys(4) a by (auto simp: nth_Cons split: nat.splits)
    then show ?thesis using d ys by simp
  qed
next
  case (21 p ps)
  then obtain qs where qs: "json_members ps = Inr qs" "\<forall>q \<in> set qs. json_value (snd q)"
    "map fst qs = map fst (filter (\<lambda>p. \<not> no_json_text (snd p)) ps)"
    by auto
  from 21 have "(no_json_text (snd p) \<and> json_property True (snd p) = Inr None)
     \<or> (\<not> no_json_text (snd p)
         \<and> (\<exists>d. json_property True (snd p) = Inr (Some d) \<and> json_value d))"
    by simp
  then show ?case using qs by auto
qed (auto simp: no_json_text_def)

lemma toJSONCompatible_json_value:
  assumes "json_value v"
  shows "toJSONCompatible v = Inr v"
  using json_roundtrip_json_value(1)[OF assms] by (simp add: toJSONCompatible_def)

lemma createResponse_object:
  assumes "plain_data (JObj ps)"
  shows "\<exists>qs. createResponse (JObj ps) = Inr (Success (JObj qs)) \<and> json_value (JObj qs)
            \<and> map fst qs = map fst (filter (\<lambda>p. \<not> no_json_text (snd p)) ps)"
proof -
  from assms have "\<forall>p \<in> set ps. plain_data (snd p)" and "json_toJSON ps = None"
    by (simp_all add: json_toJSON_None)
  from json_roundtrip_plain_data(4)[OF this(1)] this(2)
  obtain qs where qs: "json_members ps = Inr qs" "\<forall>q \<in> set qs. json_value (snd q)"
    "map fst qs = map fst (filter (\<lambda>p. \<not> no_json_text (snd p)) ps)"
    and "json_toJSON ps = None"
    by blast
  then have "createResponse (JObj ps) = Inr (Success (JObj qs))"
    by (simp add: createResponse_def toJSONCompatible_def)
  with qs show ?thesis by simp
qed

lemma createResponse_array:
  assumes "plain_data (JArr xs)"
  shows "\<exists>ys. createResponse (JArr xs) = Inr (Success (JArr ys)) \<and> json_value (JArr ys)
            \<and> length ys = length xs
            \<and> (\<forall>i < length xs. no_json_text (xs ! i) \<longrightarrow> ys ! i = JNull)"
proof -
  from assms have "\<forall>x \<in> set xs. plain_data x" by simp
  from json_roundtrip_plain_data(3)[OF this]
  obtain ys where ys: "json_elements xs = Inr ys" "\<forall>y \<in> set ys. json_value y"
    "length ys = length xs" "\<forall>i < length xs. no_json_text (xs ! i) \<longrightarrow> ys ! i = JNull"
    by blast
  then have "createResponse (JArr xs) = Inr (Success (JArr ys))"
    by (simp add: createResponse_def toJSONCompatible_def)
  with ys show ?thesis by simp
qed

text \<open>
  Claim C7, as amended. \<^verbatim>\<open>createResponse\<close> applied to a structurally serializable value
  (\<^verbatim>\<open>null\<close>, a boolean, a finite number other than negative zero, a string, or an array
  or plain object of such values) returns the success variant with data equal to the
  input. Applied to an object or an array of plain data, that is one that holds, at any
  depth, no BigInt, no reference back into itself and no object with a \<^verbatim>\<open>toJSON\<close>
  method, and that may hold \<^verbatim>\<open>undefined\<close>, function or symbol members, it returns the
  success variant without raising, and the data is structurally serializable: an object
  property holding such a member is absent, an array element that is such a member is
  \<^verbatim>\<open>null\<close>.
\<close>

theorem wrapSuccess_round_trip:
  "(json_value v \<longrightarrow> createResponse v = Inr (Success v))
   \<and> (plain_data (JObj ps) \<longrightarrow>
        (\<exists>qs. createResponse (JObj ps) = Inr (Success (JObj qs)) \<and> json_value (JObj qs)
            \<and> map fst qs = map fst (filter (\<lambda>p. \<not> no_json_text (snd p)) ps)))
   \<and> (plain_data (JArr xs) \<longrightarrow>
        (\<exists>ys. createResponse (JArr xs) = Inr (Success (JArr ys)) \<and> json_value (JArr ys)
            \<and> length ys = length xs
            \<and> (\<forall>i < length xs. no_json_text (xs ! i) \<longrightarrow> ys ! i = JNull)))"
  using toJSONCompatible_json_value[of v] createResponse_object[of ps] createResponse_array[of xs]
  by (simp add: createResponse_def)

theorem wrapSuccess_round_trip_witness:
  "json_value (JObj [(''n'', JNum 1), (''xs'', JArr [JStr ''a'', JNull])])
   \<and> createResponse (JObj [(''n'', JNum 1), (''xs'', JArr [JStr ''a'', JNull])])
        = Inr (Success (JObj [(''n'', JNum 1), (''xs'', JArr [JStr ''a'', JNull])]))
   \<and> plain_data (JObj [(''f'', JFunction JNull), (''n'', JNum 1), (''u'', JUndefined)])
   \<and> createResponse (JObj [(''f'', JFunction JNull), (''n'', JNum 1), (''u'', JUndefined)])
        = Inr (Success (JObj [(''n'', JNum 1)]))
   \<and> plain_data (JArr [JSymbol, JBool True])
   \<and> createResponse (JArr [JSymbol, JBool True]) = Inr (Success (JArr [JNull, JBool True]))"
  using wrapSuccess_round_trip[of "JObj [(''n'', JNum 1), (''xs'', JArr [JStr ''a'', JNull])]"
      "[(''f'', JFunction JNull), (''n'', JNum 1), (''u'', JUndefined)]" "[JSymbol, JBool True]"]
  by (simp add: createResponse_def toJSONCompatible_def has_toJSON_method_def)

text \<open>
  Claim C7 as stated fails: an object with a BigInt member makes \<^verbatim>\<open>createResponse\<close>
  raise a \<^verbatim>\<open>TypeError\<close>, and an \<^verbatim>\<open>undefined\<close> array element is not absent from the
  data but replaced by \<^verbatim>\<open>null\<close>. It raises as well for an object that holds a reference
  to itself and for an object whose \<^verbatim>\<open>toJSON\<close> method returns \<^verbatim>\<open>undefined\<close>; and when
  the method returns a value, this value takes the place of the object.
\<close>

theorem wrapSuccess_counterexample:
  "createResponse (JObj [(''id'', JBigInt 1)]) = Inl bigint_TypeError
   \<and> createResponse (JArr [JUndefined, JNum 1]) = Inr (Success (JArr [JNull, JNum 1]))
   \<and> createResponse (JObj [(''self'', JBackRef)]) = Inl circular_TypeError
   \<and> createResponse (JObj [(''toJSON'', JFunction JUndefined), (''n'', JNum 1)])
        = Inl (OtherError ''undefined is not valid JSON'' None)
   \<and> createResponse (JObj [(''toJSON'', JFunction (JStr ''x'')), (''n'', JNum 1)])
        = Inr (Success (JStr ''x''))"
  by (simp add: createResponse_def toJSONCompatible_def)

text \<open>
  Claim C2, as amended. The classifier follows its decision table in order. A failure
  with the store-boundary marker (\<^verbatim>\<open>WorkflowAPIError\<close>) yields the store layer (the
  source's tag for it is \<^verbatim>\<open>API\<close>) with status, url and code recorded in the request; its
  message is the \<^verbatim>\<open>Error creating response: \<close> prefix plus the raw message when the
  status is missing or 0, and otherwise derived from the status: the access-denied text
  for 401 and 403, the not-found text for 404, the connectivity text for 500, else the
  network text when the message contains \<^verbatim>\<open>Network\<close> or \<^verbatim>\<open>fetch\<close>, else the failure's own
  message, or \<^verbatim>\<open>An unexpected error occurred\<close> when that message is empty. The
  run-not-found failure yields the store layer, status 404 and the not-found text. Every
  other failure yields the server layer, status 500 and the prefix plus the raw message.
  All branches set the cause (the stack, or the message when there is no stack) and the
  operation and parameters of the request.
\<close>

theorem classifier_decision_table:
  "createServerActionError (WorkflowAPIError m st err_status err_url err_code) op requestParams
     = Failure \<lparr> message =
                  (if err_status = None \<or> err_status = Some 0 then ''Error creating response: '' @ m
                   else if err_status = Some 401 \<or> err_status = Some 403
                     then ''Access denied. Please check your credentials and permissions.''
                   else if err_status = Some 404 then ''The requested resource was not found.''
                   else if err_status = Some 500
                     then ''Error connecting to World backend, please try again later.''
                   else if sublist ''Network'' m \<or> sublist ''fetch'' m
                     then ''Network error. Please check your connection and try again.''
                   else if m = '''' then ''An unexpected error occurred''
                   else m),
                layer = API,
                cause = Some (if st = None \<or> st = Some '''' then m else the st),
                request = Some \<lparr> operation = op,
                                 params = (case requestParams of None \<Rightarrow> [] | Some ps \<Rightarrow> ps),
                                 status = err_status, url = err_url, code = err_code \<rparr> \<rparr>
   \<and> createServerActionError (WorkflowRunNotFoundError m st) op requestParams
     = Failure \<lparr> message = ''The requested resource was not found.'',
                layer = API,
                cause = Some (if st = None \<or> st = Some '''' then m else the st),
                request = Some \<lparr> operation = op,
                                 params = (case requestParams of None \<Rightarrow> [] | Some ps \<Rightarrow> ps),
                                 status = Some 404, url = None, code = None \<rparr> \<rparr>
   \<and> createServerActionError (OtherError m st) op requestParams
     = Failure \<lparr> message = ''Error creating response: '' @ m,
                layer = Server,
                cause = Some (if st = None \<or> st = Some '''' then m else the st),
                request = Some \<lparr> operation = op,
                                 params = (case requestParams of None \<Rightarrow> [] | Some ps \<Rightarrow> ps),
                                 status = Some 500, url = None, code = None \<rparr> \<rparr>
   \<and> createServerActionError (NonError m st) op requestParams
     = Failure \<lparr> message = ''Error creating response: '' @ m,
                layer = Server,
                cause = Some (if st = None \<or> st = Some '''' then m else the st),
                request = Some \<lparr> operation = op,
                                 params = (case requestParams of None \<Rightarrow> [] | Some ps \<Rightarrow> ps),
                                 status = Some 500, url = None, code = None \<rparr> \<rparr>"
  by (auto simp: getUserFacingErrorMessage_def stack_or_message_def truthy_string_def
      params_or_empty_def str_includes_def split: option.splits)

text \<open>
  Claim C2 as stated fails: for a store-boundary failure without a status the message is
  not the failure's own message (nor one of the status texts or the network text) but the
  prefix plus the raw message.
\<close>

theorem classifier_no_status_counterexample:
  "(createServerActionError (WorkflowAPIError ''boom'' None None None None) ''wakeUpRun'' None
      :: jsval ServerActionResult)
     = Failure \<lparr> message = ''Error creating response: boom'', layer = API, cause = Some ''boom'',
                 request = Some \<lparr> operation = ''wakeUpRun'', params = [],
                                  status = None, url = None, code = None \<rparr> \<rparr>
   \<and> claimed_store_message ''boom'' None = ''boom''
   \<and> getUserFacingErrorMessage ''boom'' None \<noteq> claimed_store_message ''boom'' None"
  by code_simp

subsection \<open>World cache\<close>


lemma cache_consistent_module_load: "cache_consistent (module_load penv backends)"
  by (simp add: cache_consistent_def module_load_def)

lemma getWorldFromEnv_hit:
  "worldCache s (cacheKey (processEnv s) m) = Some w \<Longrightarrow> getWorldFromEnv cf m s = (Inr w, s)"
  by (simp add: getWorldFromEnv_def)

lemma getWorldFromEnv_consistent:
  assumes "cache_consistent s" "getWorldFromEnv cf m s = (r, s')"
  shows "cache_consistent s'"
proof (cases "worldCache s (cacheKey (processEnv s) m)")
  case (Some w)
  then show ?thesis using assms by (simp add: getWorldFromEnv_def)
next
  case None
  let ?env = "apply_env (effectiveEnvMap (processEnv s) m) (processEnv s)"
  show ?thesis
  proof (cases "cf ?env")
    case (Some e)
    then have "s' = s\<lparr>processEnv := ?env\<rparr>"
      using assms(2) None by (simp add: getWorldFromEnv_def createWorld_def)
    then show ?thesis using assms(1) by (simp add: cache_consistent_def)
  next
    case cfNone: None
    let ?k = "cacheKey (processEnv s) m"
    have s': "worldCache s' = (worldCache s)(?k \<mapsto> worldsCreated s)"
      "worldsCreated s' = Suc (worldsCreated s)"
      using assms(2) None cfNone by (auto simp: getWorldFromEnv_def createWorld_def)
    have bound: "w < worldsCreated s" if "worldCache s k = Some w" for k w
      using assms(1) that unfolding cache_consistent_def by blast
    have inj: "k = k'" if "worldCache s k = Some w" "worldCache s k' = Some w" for k k' w
      using assms(1) that unfolding cache_consistent_def by blast
    have fresh: "worldCache s k \<noteq> Some (worldsCreated s)" for k
      using bound[of k "worldsCreated s"] by auto
    show ?thesis
      unfolding cache_consistent_def s'
    proof (intro conjI allI impI)
      fix k w
      assume "((worldCache s)(?k \<mapsto> worldsCreated s)) k = Some w"
      then show "w < Suc (worldsCreated s)"
        using bound[of k w] by (auto split: if_splits)
    next
      fix k k' w
      assume "((worldCache s)(?k \<mapsto> worldsCreated s)) k = Some w
            \<and> ((worldCache s)(?k \<mapsto> worldsCreated s)) k' = Some w"
      then show "k = k'"
        using inj[of k w k'] fresh[of k] fresh[of k'] by (auto split: if_splits)
    qed
  qed
qed

lemma getWorldFromEnv_cached:
  assumes "getWorldFromEnv cf m s = (Inr w, s')"
  shows "worldCache s' (cacheKey (processEnv s) m) = Some w"
  using assms
  by (auto simp: getWorldFromEnv_def createWorld_def Let_def split: option.splits)

lemma getWorldFromEnv_keeps:
  assumes "getWorldFromEnv cf m s = (r, s')" "worldCache s k = Some w"
  shows "worldCache s' k = Some w"
  using assms
  by (auto simp: getWorldFromEnv_def createWorld_def Let_def split: option.splits)

lemma get_worlds_consistent:
  "cache_consistent s \<Longrightarrow> cache_consistent (get_worlds cf ms s)"
proof (induction ms arbitrary: s)
  case Nil
  then show ?case by simp
next
  case (Cons m ms)
  have "cache_consistent (snd (getWorldFromEnv cf m s))"
    using getWorldFromEnv_consistent[OF Cons.prems, of cf m] by (cases "getWorldFromEnv cf m s") simp
  from Cons.IH[OF this] show ?case by simp
qed

lemma get_worlds_keeps:
  "worldCache s k = Some w \<Longrightarrow> worldCache (get_worlds cf ms s) k = Some w"
proof (induction ms arbitrary: s)
  case Nil
  then show ?case by simp
next
  case (Cons m ms)
  have "worldCache (snd (getWorldFromEnv cf m s)) k = Some w"
    using getWorldFromEnv_keeps[OF _ Cons.prems, of cf m] by (cases "getWorldFromEnv cf m s") simp
  from Cons.IH[OF this] show ?case by simp
qed

text \<open>
  Claim C4. Two calls of \<^verbatim>\<open>getWorldFromEnv\<close> that both return a world, with any
  number of calls between them: when the two calls compute the same cache key, the second
  returns the instance that the first returned and leaves the state as it was (no world is
  constructed); when they compute different cache keys, they return different instances.
\<close>

theorem world_cache_same_instance:
  assumes "cache_consistent s"
    and "getWorldFromEnv cf m1 s = (Inr w1, s1)"
    and "getWorldFromEnv cf m2 (get_worlds cf ms s1) = (Inr w2, s2)"
  shows "(cacheKey (processEnv s) m1 = cacheKey (processEnv (get_worlds cf ms s1)) m2
            \<longrightarrow> w2 = w1 \<and> s2 = get_worlds cf ms s1)
       \<and> (cacheKey (processEnv s) m1 \<noteq> cacheKey (processEnv (get_worlds cf ms s1)) m2
            \<longrightarrow> w2 \<noteq> w1)"
proof -
  let ?k1 = "cacheKey (processEnv s) m1"
  let ?t = "get_worlds cf ms s1"
  let ?k2 = "cacheKey (processEnv ?t) m2"
  have c1: "worldCache ?t ?k1 = Some w1"
    using getWorldFromEnv_cached[OF assms(2)] by (rule get_worlds_keeps)
  have inv_t: "cache_consistent ?t"
    using getWorldFromEnv_consistent[OF assms(1,2)] by (rule get_worlds_consistent)
  have same: "w2 = w1 \<and> s2 = ?t" if "?k1 = ?k2"
    using getWorldFromEnv_hit[of ?t m2 w1 cf] c1 that assms(3) by simp
  have diff: "w2 \<noteq> w1" if "?k1 \<noteq> ?k2"
  proof
    assume eq: "w2 = w1"
    have a: "worldCache s2 ?k2 = Some w2" using getWorldFromEnv_cached[OF assms(3)] .
    have b: "worldCache s2 ?k1 = Some w1" using getWorldFromEnv_keeps[OF assms(3) c1] .
    have "cache_consistent s2" using getWorldFromEnv_consistent[OF inv_t assms(3)] .
    then have "?k1 = ?k2" using a b eq unfolding cache_consistent_def by blast
    with that show False by simp
  qed
  show ?thesis using same diff by blast
qed

text \<open>
  From the state at module load: a first call with \<^verbatim>\<open>WORKFLOW_TARGET_WORLD=local\<close> writes
  the setting to the process environment, so a later call computes the same cache key
  whatever its mapping, and gets the same world back; two calls with mappings that are
  no named settings compute different keys and get different worlds.
\<close>

theorem world_cache_same_instance_witness:
  "cache_consistent example_state
   \<and> fst (getWorldFromEnv never_fails [(''WORKFLOW_TARGET_WORLD'', Some ''local'')] example_state)
       = Inr 0
   \<and> fst (getWorldFromEnv never_fails [(''PORT'', Some ''3000'')]
          (get_worlds never_fails [[]]
            (snd (getWorldFromEnv never_fails [(''WORKFLOW_TARGET_WORLD'', Some ''local'')] example_state))))
       = Inr 0
   \<and> cacheKey (processEnv example_state) [(''WORKFLOW_TARGET_WORLD'', Some ''local'')]
       = cacheKey (processEnv (get_worlds never_fails [[]]
           (snd (getWorldFromEnv never_fails [(''WORKFLOW_TARGET_WORLD'', Some ''local'')] example_state))))
           [(''PORT'', Some ''3000'')]
   \<and> snd (getWorldFromEnv never_fails [(''PORT'', Some ''3000'')]
          (get_worlds never_fails [[]]
            (snd (getWorldFromEnv never_fails [(''WORKFLOW_TARGET_WORLD'', Some ''local'')] example_state))))
       = get_worlds never_fails [[]]
            (snd (getWorldFromEnv never_fails [(''WORKFLOW_TARGET_WORLD'', Some ''local'')] example_state))
   \<and> fst (getWorldFromEnv never_fails [(''tenant'', Some ''a'')] example_state) = Inr 0
   \<and> fst (getWorldFromEnv never_fails [(''tenant'', Some ''b'')]
          (get_worlds never_fails []
            (snd (getWorldFromEnv never_fails [(''tenant'', Some ''a'')] example_state))))
       = Inr 1
   \<and> cacheKey (processEnv example_state) [(''tenant'', Some ''a'')]
       \<noteq> cacheKey (processEnv (get_worlds never_fails []
           (snd (getWorldFromEnv never_fails [(''tenant'', Some ''a'')] example_state))))
           [(''tenant'', Some ''b'')]
   \<and> fst (getWorldFromEnv never_fails [(''tenant'', Some ''b'')]
          (get_worlds never_fails []
            (snd (getWorldFromEnv never_fails [(''tenant'', Some ''a'')] example_state))))
       \<noteq> fst (getWorldFromEnv never_fails [(''tenant'', Some ''a'')] example_state)"
proof -
  let ?m1 = "[(''WORKFLOW_TARGET_WORLD'', Some ''local'')]"
  let ?m2 = "[(''PORT'', Some ''3000'')]"
  let ?s1 = "snd (getWorldFromEnv never_fails ?m1 example_state)"
  let ?t = "get_worlds never_fails [[]] ?s1"
  let ?n1 = "[(''tenant'', Some ''a'')]"
  let ?n2 = "[(''tenant'', Some ''b'')]"
  let ?u1 = "snd (getWorldFromEnv never_fails ?n1 example_state)"
  let ?u = "get_worlds never_fails [] ?u1"
  have inv: "cache_consistent example_state"
    by (simp add: example_state_def cache_consistent_def module_load_def)
  have fa1: "fst (getWorldFromEnv never_fails ?m1 example_state) = Inr 0" by code_simp
  then have a1: "getWorldFromEnv never_fails ?m1 example_state = (Inr 0, ?s1)"
    by (simp add: prod_eq_iff)
  obtain w2 where a2: "getWorldFromEnv never_fails ?m2 ?t
                   = (Inr w2, snd (getWorldFromEnv never_fails ?m2 ?t))"
  proof -
    have "fst (getWorldFromEnv never_fails ?m2 ?t) = Inr 0" by code_simp
    then have "getWorldFromEnv never_fails ?m2 ?t
                   = (Inr 0, snd (getWorldFromEnv never_fails ?m2 ?t))"
      by (simp add: prod_eq_iff)
    then show ?thesis using that by blast
  qed
  have ka: "cacheKey (processEnv example_state) ?m1 = cacheKey (processEnv ?t) ?m2"
    by code_simp
  have fb1: "fst (getWorldFromEnv never_fails ?n1 example_state) = Inr 0" by code_simp
  then have b1: "getWorldFromEnv never_fails ?n1 example_state = (Inr 0, ?u1)"
    by (simp add: prod_eq_iff)
  have fb2: "fst (getWorldFromEnv never_fails ?n2 ?u) = Inr 1" by code_simp
  have kb: "cacheKey (processEnv example_state) ?n1 \<noteq> cacheKey (processEnv ?u) ?n2"
    by code_simp
  from world_cache_same_instance[OF inv a1 a2] ka
  have "w2 = 0" and r1: "snd (getWorldFromEnv never_fails ?m2 ?t) = ?t" by blast+
  with a2 have fa2: "fst (getWorldFromEnv never_fails ?m2 ?t) = Inr 0" by simp
  obtain w3 where b2: "getWorldFromEnv never_fails ?n2 ?u
                   = (Inr w3, snd (getWorldFromEnv never_fails ?n2 ?u))"
    using fb2 by (simp add: prod_eq_iff)
  from world_cache_same_instance[OF inv b1 b2] kb have "w3 \<noteq> 0" by blast
  moreover have "fst (getWorldFromEnv never_fails ?n2 ?u) = Inr w3"
    using b2 by (metis fst_conv)
  ultimately have r2: "fst (getWorldFromEnv never_fails ?n2 ?u)
                         \<noteq> fst (getWorldFromEnv never_fails ?n1 example_state)"
    using fb1 by simp
  show ?thesis using inv fa1 fa2 ka r1 fb1 fb2 kb r2 by blast
qed

subsection \<open>Waking up a run\<close>


lemma truthy_string_iff: "truthy_string (correlationId e) \<longleftrightarrow> \<not> lacks_correlationId e"
  by (simp add: truthy_string_def lacks_correlationId_def split: option.splits)

lemma pendingWaits_spec: "pendingWaits data options = pending_spec data options"
proof -
  have "truthy_string (correlationId e) \<and> the (correlationId e) \<in> set (target_ids options)
          \<longleftrightarrow> \<not> lacks_correlationId e \<and> correlationId e \<in> set (map Some (target_ids options))"
    for e
    by (cases "correlationId e") (auto simp: truthy_string_def lacks_correlationId_def)
  then show ?thesis
    by (auto simp: pendingWaits_def pending_spec_def Let_def intro: filter_cong)
qed

lemma events_create_fails:
  "w_fault w (w_calls w) (EventsCreate rid t c) = Some x \<Longrightarrow>
     events_create rid t c w = (Inl x, received (EventsCreate rid t c) Failed w)"
  by (simp add: events_create_def)

lemma events_create_accepted:
  "w_fault w (w_calls w) (EventsCreate rid t c) = None \<Longrightarrow>
     events_create rid t c w
       = (Inr (), received (EventsCreate rid t c) Accepted
            (w\<lparr>w_events := w_events w @ [\<lparr>eventType = t, correlationId = Some c, event_runId = rid\<rparr>]\<rparr>))"
  by (simp add: events_create_def)

lemma create_completions_skip:
  "lacks_correlationId e \<Longrightarrow>
     create_completions rid (e # waits) w = create_completions rid waits w"
  by (simp add: truthy_string_iff)

lemma create_completions_step:
  assumes "\<not> lacks_correlationId e"
  shows "create_completions rid (e # waits) w
           = (case events_create rid ''wait_completed'' (the (correlationId e)) w of
                (Inl x, w') \<Rightarrow> (Inl x, w')
              | (Inr u, w') \<Rightarrow> create_completions rid waits w')"
  using assms by (simp add: truthy_string_iff)

lemma create_completions_Inr:
  "create_completions rid waits w = (Inr u, w') \<Longrightarrow>
     w' = w\<lparr> w_events := w_events w @ completion_events rid waits,
             w_calls := w_calls w @ map (\<lambda>c. (c, Accepted)) (create_calls rid waits) \<rparr>"
proof (induction waits arbitrary: w)
  case Nil
  then show ?case by (simp add: completion_events_def create_calls_def)
next
  case (Cons e waits)
  show ?case
  proof (cases "lacks_correlationId e")
    case True
    then have "create_completions rid waits w = (Inr u, w')"
      using Cons.prems by (simp only: create_completions_skip)
    from Cons.IH[OF this] True show ?thesis
      by (simp add: completion_events_def create_calls_def)
  next
    case False
    then obtain c where c: "correlationId e = Some c"
      by (auto simp: lacks_correlationId_def)
    let ?call = "EventsCreate rid ''wait_completed'' c"
    let ?w1 = "received ?call Accepted
                 (w\<lparr>w_events := w_events w
                      @ [\<lparr>eventType = ''wait_completed'', correlationId = Some c, event_runId = rid\<rparr>]\<rparr>)"
    note step = create_completions_step[OF False, of rid waits w, unfolded c option.sel]
    show ?thesis
    proof (cases "w_fault w (w_calls w) ?call")
      case (Some x)
      then show ?thesis
        using Cons.prems step by (simp add: events_create_fails)
    next
      case None
      then have "create_completions rid waits ?w1 = (Inr u, w')"
        using Cons.prems step by (simp add: events_create_accepted)
      from Cons.IH[OF this] False c show ?thesis
        by (simp add: completion_events_def create_calls_def received_def)
    qed
  qed
qed

lemma create_completions_Inl:
  "create_completions rid waits w = (Inl err, w') \<Longrightarrow>
     \<exists>cs. w_calls w' = w_calls w @ cs \<and> (\<forall>c \<in> set cs. \<not> is_queue_call (fst c))"
proof (induction waits arbitrary: w)
  case Nil
  then show ?case by simp
next
  case (Cons e waits)
  show ?case
  proof (cases "lacks_correlationId e")
    case True
    then have "create_completions rid waits w = (Inl err, w')"
      using Cons.prems by (simp only: create_completions_skip)
    from Cons.IH[OF this] show ?thesis .
  next
    case False
    then obtain c where c: "correlationId e = Some c"
      by (auto simp: lacks_correlationId_def)
    let ?call = "EventsCreate rid ''wait_completed'' c"
    note step = create_completions_step[OF False, of rid waits w, unfolded c option.sel]
    show ?thesis
    proof (cases "w_fault w (w_calls w) ?call")
      case (Some x)
      then have "w' = received ?call Failed w"
        using Cons.prems step by (simp add: events_create_fails)
      then have "w_calls w' = w_calls w @ [(?call, Failed)]" by (simp add: received_def)
      then show ?thesis by simp
    next
      case None
      let ?w1 = "received ?call Accepted
                 (w\<lparr>w_events := w_events w
                      @ [\<lparr>eventType = ''wait_completed'', correlationId = Some c, event_runId = rid\<rparr>]\<rparr>)"
      have "create_completions rid waits ?w1 = (Inl err, w')"
        using Cons.prems step None by (simp add: events_create_accepted)
      from Cons.IH[OF this] obtain cs where
        cs: "w_calls w' = w_calls ?w1 @ cs" "\<forall>c \<in> set cs. \<not> is_queue_call (fst c)" by blast
      then have "w_calls w' = w_calls w @ ((?call, Accepted) # cs)" by (simp add: received_def)
      moreover have "\<forall>c \<in> set ((?call, Accepted) # cs). \<not> is_queue_call (fst c)"
        using cs(2) by simp
      ultimately show ?thesis by blast
    qed
  qed
qed

lemma create_completions_no_fault:
  "(\<forall>hist c. w_fault w hist c = None) \<Longrightarrow> \<exists>w'. create_completions rid waits w = (Inr (), w')"
proof (induction waits arbitrary: w)
  case Nil
  then show ?case by simp
next
  case (Cons e waits)
  show ?case
  proof (cases "lacks_correlationId e")
    case True
    then show ?thesis using Cons.IH[OF Cons.prems] by (simp only: create_completions_skip)
  next
    case False
    let ?call = "EventsCreate rid ''wait_completed'' (the (correlationId e))"
    let ?w1 = "received ?call Accepted
                 (w\<lparr>w_events := w_events w
                      @ [\<lparr>eventType = ''wait_completed'', correlationId = Some (the (correlationId e)),
                          event_runId = rid\<rparr>]\<rparr>)"
    have "\<forall>hist c. w_fault ?w1 hist c = None" using Cons.prems by (simp add: received_def)
    from Cons.IH[OF this] obtain w' where "create_completions rid waits ?w1 = (Inr (), w')" by blast
    then show ?thesis
      using Cons.prems
      by (simp add: create_completions_step[OF False] events_create_accepted
          del: create_completions.simps)
  qed
qed

lemma runs_get_Inr:
  "runs_get rid w = (Inr run, w1) \<longleftrightarrow>
     w_fault w (w_calls w) (RunsGet rid) = None \<and> w_runs w rid = Some run
     \<and> w1 = received (RunsGet rid) Accepted w"
  by (auto simp: runs_get_def split: option.splits)

lemma runs_get_Inl:
  "runs_get rid w = (Inl err, w1) \<Longrightarrow> w1 = received (RunsGet rid) Failed w"
  by (auto simp: runs_get_def split: option.splits)

lemma events_list_Inr:
  "events_list rid n w = (Inr data, w2) \<longleftrightarrow>
     w_fault w (w_calls w) (EventsList rid n) = None
     \<and> data = take n (filter (\<lambda>e. event_runId e = rid) (w_events w))
     \<and> w2 = received (EventsList rid n) Accepted w"
  by (auto simp: events_list_def split: option.splits)

lemma events_list_Inl:
  "events_list rid n w = (Inl err, w2) \<Longrightarrow> w2 = received (EventsList rid n) Failed w"
  by (auto simp: events_list_def split: option.splits)

lemma queue_Inr:
  "queue q rid d w = (Inr u, w') \<Longrightarrow> w' = received (Queue q rid d) Accepted w"
  by (auto simp: queue_def split: option.splits)

lemma queue_Inl:
  "queue q rid d w = (Inl err, w') \<Longrightarrow> w' = received (Queue q rid d) Failed w"
  by (auto simp: queue_def split: option.splits)

text \<open>
  The world after the two reads of \<^verbatim>\<open>wakeUpRun\<close>, and the listed events.
\<close>

lemma wake_world_after_reads:
  assumes "runs_get rid w = (Inr run, w1)" "events_list rid 1000 w1 = (Inr data, w2)"
  shows "data = first_page rid w"
    and "w2 = w\<lparr>w_calls := w_calls w @ [(RunsGet rid, Accepted), (EventsList rid 1000, Accepted)]\<rparr>"
    and "wake_world rid options w =
           (case create_completions rid (pendingWaits data options) w2 of
              (Inl e, w3) \<Rightarrow> (Inl e, w3)
            | (Inr u, w3) \<Rightarrow>
               (if length (pendingWaits data options) > 0
                then (case queue (''__wkf_workflow_'' @ workflowName run) rid (deploymentId run) w3 of
                        (Inl e, w4) \<Rightarrow> (Inl e, w4)
                      | (Inr u', w4) \<Rightarrow> (Inr (length (pendingWaits data options)), w4))
                else (Inr (length (pendingWaits data options)), w3)))"
proof -
  from assms(1) have w1: "w1 = received (RunsGet rid) Accepted w" by (simp add: runs_get_Inr)
  from assms(2) have w2: "w2 = received (EventsList rid 1000) Accepted w1"
    and d: "data = take 1000 (filter (\<lambda>e. event_runId e = rid) (w_events w1))"
    by (simp_all add: events_list_Inr)
  show "data = first_page rid w" using d w1 by (simp add: first_page_def received_def)
  show "w2 = w\<lparr>w_calls := w_calls w @ [(RunsGet rid, Accepted), (EventsList rid 1000, Accepted)]\<rparr>"
    using w1 w2 by (simp add: received_def)
  show "wake_world rid options w =
           (case create_completions rid (pendingWaits data options) w2 of
              (Inl e, w3) \<Rightarrow> (Inl e, w3)
            | (Inr u, w3) \<Rightarrow>
               (if length (pendingWaits data options) > 0
                then (case queue (''__wkf_workflow_'' @ workflowName run) rid (deploymentId run) w3 of
                        (Inl e, w4) \<Rightarrow> (Inl e, w4)
                      | (Inr u', w4) \<Rightarrow> (Inr (length (pendingWaits data options)), w4))
                else (Inr (length (pendingWaits data options)), w3)))"
    using assms by (simp add: wake_world_def Let_def)
qed

text \<open>A wake-up that returns a count: what it did to the world.\<close>

lemma wake_world_Inr:
  assumes "wake_world rid options w = (Inr n, w')"
  shows "\<exists>run. w_runs w rid = Some run
           \<and> n = length (pendingWaits (first_page rid w) options)
           \<and> w' = w\<lparr> w_events := w_events w
                         @ completion_events rid (pendingWaits (first_page rid w) options),
                      w_calls := w_calls w
                         @ [(RunsGet rid, Accepted), (EventsList rid 1000, Accepted)]
                         @ map (\<lambda>c. (c, Accepted))
                             (create_calls rid (pendingWaits (first_page rid w) options))
                         @ (if pendingWaits (first_page rid w) options = [] then []
                            else [(dispatch_call run rid, Accepted)]) \<rparr>"
proof -
  obtain r1 w1 where g: "runs_get rid w = (r1, w1)" by (cases "runs_get rid w")
  then obtain run where r1: "r1 = Inr run"
    using assms by (cases r1) (auto simp: wake_world_def)
  obtain r2 w2 where l: "events_list rid 1000 w1 = (r2, w2)" by (cases "events_list rid 1000 w1")
  then obtain data where r2: "r2 = Inr data"
    using assms g r1 by (cases r2) (auto simp: wake_world_def)
  note reads = wake_world_after_reads[OF g[unfolded r1] l[unfolded r2]]
  let ?P = "pendingWaits data options"
  obtain r3 w3 where c: "create_completions rid ?P w2 = (r3, w3)"
    by (cases "create_completions rid ?P w2")
  then have r3: "r3 = Inr ()"
    using assms reads(3) by (cases r3) auto
  note w3 = create_completions_Inr[OF c[unfolded r3]]
  have run: "w_runs w rid = Some run" using g r1 by (simp add: runs_get_Inr)
  show ?thesis
  proof (cases "?P = []")
    case True
    then have "n = length ?P" "w' = w3"
      using assms reads(3) c r3 by auto
    then show ?thesis
      using run True w3 reads(1,2) by (auto simp: completion_events_def create_calls_def)
  next
    case False
    let ?q = "''__wkf_workflow_'' @ workflowName run"
    obtain r4 w4 where q: "queue ?q rid (deploymentId run) w3 = (r4, w4)"
      by (cases "queue ?q rid (deploymentId run) w3")
    then have r4: "r4 = Inr ()" and n: "n = length ?P" and w': "w' = w4"
      using assms reads(3) c r3 False by (cases r4; auto)+
    from queue_Inr[OF q[unfolded r4]] have "w4 = received (Queue ?q rid (deploymentId run)) Accepted w3" .
    then show ?thesis
      using run False w3 reads(1,2) n w'
      by (auto simp: received_def dispatch_call_def)
  qed
qed

text \<open>
  A wake-up that raises: either no dispatch was issued, or the dispatch itself failed,
  after every synthesis had been accepted.
\<close>

lemma wake_world_Inl:
  assumes "wake_world rid options w = (Inl err, w')"
  shows "\<exists>cs. w_calls w' = w_calls w @ cs
           \<and> ((\<forall>c \<in> set cs. \<not> is_queue_call (fst c))
              \<or> (\<exists>run. w_runs w rid = Some run
                    \<and> pendingWaits (first_page rid w) options \<noteq> []
                    \<and> cs = [(RunsGet rid, Accepted), (EventsList rid 1000, Accepted)]
                         @ map (\<lambda>c. (c, Accepted))
                             (create_calls rid (pendingWaits (first_page rid w) options))
                         @ [(dispatch_call run rid, Failed)]
                    \<and> w_events w' = w_events w
                         @ completion_events rid (pendingWaits (first_page rid w) options)))"
proof -
  obtain r1 w1 where g: "runs_get rid w = (r1, w1)" by (cases "runs_get rid w")
  show ?thesis
  proof (cases r1)
    case (Inl e1)
    then have "w' = w1" using assms g by (simp add: wake_world_def)
    moreover have "w1 = received (RunsGet rid) Failed w" using g Inl runs_get_Inl by blast
    ultimately have "w_calls w' = w_calls w @ [(RunsGet rid, Failed)]" by (simp add: received_def)
    then show ?thesis by simp
  next
    case (Inr run)
    note g = g[unfolded Inr]
    have w1: "w1 = received (RunsGet rid) Accepted w" and run: "w_runs w rid = Some run"
      using g by (simp_all add: runs_get_Inr)
    obtain r2 w2 where l: "events_list rid 1000 w1 = (r2, w2)" by (cases "events_list rid 1000 w1")
    show ?thesis
    proof (cases r2)
      case (Inl e2)
      then have "w' = w2" using assms g l by (simp add: wake_world_def)
      moreover have "w2 = received (EventsList rid 1000) Failed w1" using l Inl events_list_Inl by blast
      ultimately have "w_calls w' = w_calls w @ [(RunsGet rid, Accepted), (EventsList rid 1000, Failed)]"
        using w1 by (simp add: received_def)
      then show ?thesis by simp
    next
      case (Inr data)
      note l = l[unfolded Inr]
      note reads = wake_world_after_reads[OF g l]
      let ?P = "pendingWaits data options"
      obtain r3 w3 where c: "create_completions rid ?P w2 = (r3, w3)"
        by (cases "create_completions rid ?P w2")
      show ?thesis
      proof (cases r3)
        case (Inl e3)
        then have "w' = w3" using assms reads(3) c by simp
        moreover from create_completions_Inl[OF c[unfolded Inl]] obtain cs where
          cs: "w_calls w3 = w_calls w2 @ cs" "\<forall>c \<in> set cs. \<not> is_queue_call (fst c)" by blast
        ultimately have "w_calls w' = w_calls w
              @ ([(RunsGet rid, Accepted), (EventsList rid 1000, Accepted)] @ cs)"
          using reads(2) by simp
        moreover have "\<forall>c \<in> set ([(RunsGet rid, Accepted), (EventsList rid 1000, Accepted)] @ cs).
                         \<not> is_queue_call (fst c)"
          using cs(2) by simp
        ultimately show ?thesis by blast
      next
        case (Inr u)
        then have r3: "r3 = Inr ()" by simp
        note w3 = create_completions_Inr[OF c[unfolded r3]]
        have ne: "?P \<noteq> []" using assms reads(3) c r3 by (auto split: if_splits)
        let ?q = "''__wkf_workflow_'' @ workflowName run"
        obtain r4 w4 where q: "queue ?q rid (deploymentId run) w3 = (r4, w4)"
          by (cases "queue ?q rid (deploymentId run) w3")
        then obtain e4 where r4: "r4 = Inl e4" and w': "w' = w4"
          using assms reads(3) c r3 ne by (cases r4) auto
        from queue_Inl[OF q[unfolded r4]]
        have "w4 = received (Queue ?q rid (deploymentId run)) Failed w3" .
        then have "w_calls w' = w_calls w
              @ ([(RunsGet rid, Accepted), (EventsList rid 1000, Accepted)]
                 @ map (\<lambda>c. (c, Accepted)) (create_calls rid ?P)
                 @ [(dispatch_call run rid, Failed)])"
          and "w_events w' = w_events w @ completion_events rid ?P"
          using w' w3 reads(2) by (simp_all add: received_def dispatch_call_def)
        then show ?thesis using run ne reads(1) by blast
      qed
    qed
  qed
qed

lemma wake_world_returns:
  assumes "\<forall>hist c. w_fault w hist c = None" "w_runs w rid = Some run"
  shows "\<exists>w'. wake_world rid options w
                = (Inr (length (pendingWaits (first_page rid w) options)), w')"
proof -
  let ?w1 = "received (RunsGet rid) Accepted w"
  let ?w2 = "received (EventsList rid 1000) Accepted ?w1"
  have g: "runs_get rid w = (Inr run, ?w1)" using assms by (simp add: runs_get_Inr)
  have l: "events_list rid 1000 ?w1 = (Inr (first_page rid w), ?w2)"
    using assms by (simp add: events_list_Inr first_page_def received_def)
  note reads = wake_world_after_reads[OF g l]
  let ?P = "pendingWaits (first_page rid w) options"
  have "\<forall>hist c. w_fault ?w2 hist c = None" using assms(1) by (simp add: received_def)
  from create_completions_no_fault[OF this] obtain w3 where
    c: "create_completions rid ?P ?w2 = (Inr (), w3)" by blast
  have "w_fault w3 = w_fault w"
    using create_completions_Inr[OF c] by (simp add: received_def)
  then have q: "queue q rid d w3 = (Inr (), received (Queue q rid d) Accepted w3)" for q d
    using assms(1) by (simp add: queue_def)
  show ?thesis
    using reads(3)[of options] c q by (cases "?P = []") simp_all
qed

lemma queue_call_last:
  assumes "\<forall>x \<in> set xs. \<not> is_queue_call (fst x)" "is_queue_call (fst z)"
    and "pre @ z # post = xs @ ys" "ys = [] \<or> ys = [y]"
  shows "ys = [y] \<and> pre = xs \<and> z = y \<and> post = []"
proof (cases post rule: rev_cases)
  case Nil
  show ?thesis
  proof (cases "ys = []")
    case True
    then have "z \<in> set xs" using assms(3) Nil by (metis in_set_conv_decomp append_Nil2)
    then show ?thesis using assms(1,2) by blast
  next
    case False
    then have "ys = [y]" using assms(4) by simp
    then show ?thesis using assms(3) Nil by simp
  qed
next
  case (snoc ps p)
  have "z \<in> set xs"
  proof (cases "ys = []")
    case True
    then show ?thesis using assms(3) by (metis in_set_conv_decomp append_Nil2)
  next
    case False
    then have "ys = [y]" using assms(4) by simp
    then have "(pre @ z # ps) @ [p] = xs @ [y]" using assms(3) snoc by simp
    then have "xs = pre @ z # ps" by simp
    then show ?thesis by simp
  qed
  then show ?thesis using assms(1,2) by blast
qed

text \<open>
  Whatever a wake-up returns: a dispatch among the calls it made is the last of them, it
  comes after the two reads and after one accepted \<^verbatim>\<open>events.create\<close> for every pending
  wait that carries a correlation id, and the store holds those events by then.
\<close>

lemma wake_world_dispatch_last:
  assumes "wake_world rid options w = (r, w')"
    and "w_calls w' = w_calls w @ pre @ (c, out) # post" "is_queue_call c"
  shows "post = []
       \<and> pendingWaits (first_page rid w) options \<noteq> []
       \<and> (\<exists>run. w_runs w rid = Some run \<and> c = dispatch_call run rid)
       \<and> pre = [(RunsGet rid, Accepted), (EventsList rid 1000, Accepted)]
               @ map (\<lambda>c. (c, Accepted)) (create_calls rid (pendingWaits (first_page rid w) options))
       \<and> w_events w' = w_events w @ completion_events rid (pendingWaits (first_page rid w) options)"
proof -
  let ?P = "pendingWaits (first_page rid w) options"
  let ?xs = "[(RunsGet rid, Accepted), (EventsList rid 1000, Accepted)]
               @ map (\<lambda>c. (c, Accepted)) (create_calls rid ?P)"
  have noq: "\<forall>x \<in> set ?xs. \<not> is_queue_call (fst x)"
    by (auto simp: create_calls_def)
  have zq: "is_queue_call (fst (c, out))" using assms(3) by simp
  show ?thesis
  proof (cases r)
    case (Inr n)
    from wake_world_Inr[OF assms(1)[unfolded Inr]] obtain run where
      run: "w_runs w rid = Some run"
      and w': "w' = w\<lparr> w_events := w_events w @ completion_events rid ?P,
                      w_calls := w_calls w @ ?xs
                         @ (if ?P = [] then [] else [(dispatch_call run rid, Accepted)]) \<rparr>"
      by auto
    let ?ys = "if ?P = [] then [] else [(dispatch_call run rid, Accepted)]"
    have eq: "pre @ (c, out) # post = ?xs @ ?ys"
      using assms(2) w' by simp
    have "?ys = [] \<or> ?ys = [(dispatch_call run rid, Accepted)]" by simp
    from queue_call_last[OF noq zq eq this]
    have "?ys = [(dispatch_call run rid, Accepted)]" "pre = ?xs"
      "(c, out) = (dispatch_call run rid, Accepted)" "post = []"
      by blast+
    moreover from this(1) have "?P \<noteq> []" by (auto split: if_splits)
    moreover have "w_events w' = w_events w @ completion_events rid ?P" using w' by simp
    ultimately show ?thesis using run by auto
  next
    case (Inl err)
    from wake_world_Inl[OF assms(1)[unfolded Inl]] obtain cs where
      cs: "w_calls w' = w_calls w @ cs"
      and alt: "(\<forall>c \<in> set cs. \<not> is_queue_call (fst c))
              \<or> (\<exists>run. w_runs w rid = Some run \<and> ?P \<noteq> []
                    \<and> cs = ?xs @ [(dispatch_call run rid, Failed)]
                    \<and> w_events w' = w_events w @ completion_events rid ?P)"
      by auto
    have eq: "pre @ (c, out) # post = cs" using assms(2) cs by simp
    from alt show ?thesis
    proof
      assume "\<forall>c \<in> set cs. \<not> is_queue_call (fst c)"
      moreover have "(c, out) \<in> set cs" using eq by auto
      ultimately show ?thesis using zq by blast
    next
      assume "\<exists>run. w_runs w rid = Some run \<and> ?P \<noteq> []
                    \<and> cs = ?xs @ [(dispatch_call run rid, Failed)]
                    \<and> w_events w' = w_events w @ completion_events rid ?P"
      then obtain run where run: "w_runs w rid = Some run" and ne: "?P \<noteq> []"
        and cs': "cs = ?xs @ [(dispatch_call run rid, Failed)]"
        and ev: "w_events w' = w_events w @ completion_events rid ?P"
        by blast
      have eq': "pre @ (c, out) # post = ?xs @ [(dispatch_call run rid, Failed)]"
        using eq cs' by simp
      from queue_call_last[OF noq zq eq', of "(dispatch_call run rid, Failed)"]
      have "pre = ?xs" "(c, out) = (dispatch_call run rid, Failed)" "post = []"
        by blast+
      then show ?thesis using run ne ev by auto
    qed
  qed
qed

lemma getWorldFromEnv_stores:
  "getWorldFromEnv cf m s = (r, s1) \<Longrightarrow> stores s1 = stores s"
  by (auto simp: getWorldFromEnv_def createWorld_def Let_def split: option.splits)

lemma createResponse_stopped: "createResponse (stopped n) = Inr (Success (stopped n))"
  by (simp add: createResponse_def toJSONCompatible_def stopped_def)

lemma createServerActionError_Failure:
  "\<exists>err. createServerActionError e op ps = Failure err"
  by (cases e) simp_all

lemma wakeUpRun_world:
  assumes "getWorldFromEnv cf worldEnv s = (Inr h, s1)"
  shows "wakeUpRun cf worldEnv rid options s =
          (case wake_world rid options (stores s h) of
             (Inl e, w') \<Rightarrow>
               (createServerActionError e ''wakeUpRun'' (Some (wakeUpRun_params rid options)),
                s1\<lparr>stores := (stores s)(h := w')\<rparr>)
           | (Inr n, w') \<Rightarrow> (Success (stopped n), s1\<lparr>stores := (stores s)(h := w')\<rparr>))"
proof -
  have st: "stores s1 = stores s" using assms by (rule getWorldFromEnv_stores)
  obtain r w' where w: "wake_world rid options (stores s h) = (r, w')"
    by (cases "wake_world rid options (stores s h)")
  show ?thesis
    using assms w st createResponse_stopped[unfolded stopped_def]
    by (cases r) (simp_all add: wakeUpRun_def wakeUpRun_try_def stopped_def)
qed

lemma wakeUpRun_outcome:
  assumes "getWorldFromEnv cf worldEnv s = (Inr h, s1)"
    and "wakeUpRun cf worldEnv rid options s = (res, s')"
  shows "\<exists>r. wake_world rid options (stores s h) = (r, stores s' h)
           \<and> (case r of Inl e \<Rightarrow> (\<exists>err. res = Failure err) | Inr n \<Rightarrow> res = Success (stopped n))"
proof -
  obtain r w' where w: "wake_world rid options (stores s h) = (r, w')"
    by (cases "wake_world rid options (stores s h)")
  show ?thesis
  proof (cases r)
    case (Inl e)
    then have "s' = s1\<lparr>stores := (stores s)(h := w')\<rparr>"
      and "res = createServerActionError e ''wakeUpRun'' (Some (wakeUpRun_params rid options))"
      using assms(2) w by (simp_all add: wakeUpRun_world[OF assms(1)])
    then show ?thesis using w Inl createServerActionError_Failure by auto
  next
    case (Inr n)
    then have "s' = s1\<lparr>stores := (stores s)(h := w')\<rparr>" and "res = Success (stopped n)"
      using assms(2) w by (simp_all add: wakeUpRun_world[OF assms(1)])
    then show ?thesis using w Inr by auto
  qed
qed

lemma wakeUpRun_Success:
  assumes "getWorldFromEnv cf worldEnv s = (Inr h, s1)"
    and "wakeUpRun cf worldEnv rid options s = (Success d, s')"
  shows "\<exists>n. wake_world rid options (stores s h) = (Inr n, stores s' h) \<and> d = stopped n"
proof -
  from wakeUpRun_outcome[OF assms] obtain r where
    r: "wake_world rid options (stores s h) = (r, stores s' h)"
    "case r of Inl e \<Rightarrow> (\<exists>err. Success d = Failure err) | Inr n \<Rightarrow> Success d = Success (stopped n)"
    by blast
  then show ?thesis by (cases r) auto
qed

lemma wakeUpRun_returns:
  assumes "getWorldFromEnv cf worldEnv s = (Inr h, s1)"
    and "\<forall>hist c. w_fault (stores s h) hist c = None" "w_runs (stores s h) rid = Some run"
  shows "\<exists>s'. wakeUpRun cf worldEnv rid options s
            = (Success (stopped (length (pendingWaits (first_page rid (stores s h)) options))), s')"
proof -
  from wake_world_returns[OF assms(2,3)] obtain w' where
    "wake_world rid options (stores s h)
       = (Inr (length (pendingWaits (first_page rid (stores s h)) options)), w')" by blast
  then show ?thesis by (simp add: wakeUpRun_world[OF assms(1)])
qed

lemma new_calls_append: "w_calls w' = w_calls w @ cs \<Longrightarrow> new_calls w w' = cs"
  by (simp add: new_calls_def)

lemma wake_world_calls_extend:
  assumes "wake_world rid options w = (r, w')"
  shows "w_calls w' = w_calls w @ new_calls w w'"
proof (cases r)
  case (Inl e)
  from wake_world_Inl[OF assms[unfolded Inl]] obtain cs where "w_calls w' = w_calls w @ cs" by blast
  then show ?thesis by (simp add: new_calls_def)
next
  case (Inr n)
  from wake_world_Inr[OF assms[unfolded Inr]] show ?thesis by (auto simp: new_calls_def)
qed

text \<open>
  Claim C1, as amended. Let \<^verbatim>\<open>wakeUpRun\<close> work on the world \<open>h\<close>. When it returns the
  success variant, \<^verbatim>\<open>stoppedCount\<close> is the number of pending waits: the \<^verbatim>\<open>wait_created\<close>
  events among the first page of the run's events whose correlation id is not among those
  carried by \<^verbatim>\<open>wait_completed\<close> events, restricted, when a non-empty target list is
  given, to the events that carry a non-empty correlation id contained in that list. The
  store has gained exactly one \<^verbatim>\<open>wait_completed\<close> event with the same correlation id for
  each pending wait that has a non-empty correlation id, each from one accepted
  \<^verbatim>\<open>events.create\<close> call. And when the store fails no call and the run exists,
  \<^verbatim>\<open>wakeUpRun\<close> does return the success variant with that count.
\<close>

theorem wakeUpRun_stoppedCount:
  assumes "getWorldFromEnv cf worldEnv s = (Inr h, s1)"
  shows "(wakeUpRun cf worldEnv rid options s = (Success d, s') \<longrightarrow>
            d = JObj [(''stoppedCount'',
                  JNum (int (length (pending_spec (first_page rid (stores s h)) options))))]
            \<and> w_events (stores s' h)
                = w_events (stores s h)
                  @ completion_events rid (pending_spec (first_page rid (stores s h)) options)
            \<and> filter (\<lambda>c. is_create_call (fst c)) (new_calls (stores s h) (stores s' h))
                = map (\<lambda>c. (c, Accepted))
                    (create_calls rid (pending_spec (first_page rid (stores s h)) options)))
       \<and> ((\<forall>hist c. w_fault (stores s h) hist c = None) \<and> w_runs (stores s h) rid \<noteq> None \<longrightarrow>
            (\<exists>t. wakeUpRun cf worldEnv rid options s
               = (Success (JObj [(''stoppedCount'',
                    JNum (int (length (pending_spec (first_page rid (stores s h)) options))))]), t)))"
proof (intro conjI impI)
  let ?P = "pendingWaits (first_page rid (stores s h)) options"
  assume run: "wakeUpRun cf worldEnv rid options s = (Success d, s')"
  from wakeUpRun_Success[OF assms run] obtain n where
    w: "wake_world rid options (stores s h) = (Inr n, stores s' h)" and d: "d = stopped n"
    by blast
  from wake_world_Inr[OF w] obtain r where
    n: "n = length ?P"
    and w': "stores s' h = (stores s h)\<lparr> w_events := w_events (stores s h) @ completion_events rid ?P,
                      w_calls := w_calls (stores s h)
                         @ [(RunsGet rid, Accepted), (EventsList rid 1000, Accepted)]
                         @ map (\<lambda>c. (c, Accepted)) (create_calls rid ?P)
                         @ (if ?P = [] then [] else [(dispatch_call r rid, Accepted)]) \<rparr>"
    by blast
  show "d = JObj [(''stoppedCount'',
                  JNum (int (length (pending_spec (first_page rid (stores s h)) options))))]"
    using d n by (simp add: stopped_def pendingWaits_spec)
  show "w_events (stores s' h)
          = w_events (stores s h)
            @ completion_events rid (pending_spec (first_page rid (stores s h)) options)"
    by (subst w') (simp add: pendingWaits_spec)
  have "new_calls (stores s h) (stores s' h)
          = [(RunsGet rid, Accepted), (EventsList rid 1000, Accepted)]
            @ map (\<lambda>c. (c, Accepted)) (create_calls rid ?P)
            @ (if ?P = [] then [] else [(dispatch_call r rid, Accepted)])"
    by (rule new_calls_append, subst w') simp
  moreover have "filter (\<lambda>c. is_create_call (fst c)) (map (\<lambda>c. (c, Accepted)) (create_calls rid ?P))
                   = map (\<lambda>c. (c, Accepted)) (create_calls rid ?P)"
    by (simp add: create_calls_def filter_map comp_def)
  ultimately show "filter (\<lambda>c. is_create_call (fst c)) (new_calls (stores s h) (stores s' h))
                = map (\<lambda>c. (c, Accepted))
                    (create_calls rid (pending_spec (first_page rid (stores s h)) options))"
    by (simp add: dispatch_call_def pendingWaits_spec)
next
  assume "(\<forall>hist c. w_fault (stores s h) hist c = None) \<and> w_runs (stores s h) rid \<noteq> None"
  then obtain run where "\<forall>hist c. w_fault (stores s h) hist c = None"
    "w_runs (stores s h) rid = Some run" by auto
  from wakeUpRun_returns[OF assms this]
  show "\<exists>t. wakeUpRun cf worldEnv rid options s
               = (Success (JObj [(''stoppedCount'',
                    JNum (int (length (pending_spec (first_page rid (stores s h)) options))))]), t)"
    by (simp add: stopped_def pendingWaits_spec)
qed

text \<open>
  Claim C1 as stated fails: for a run whose only event is a \<^verbatim>\<open>wait_created\<close> with the
  empty correlation id and the target list \<^verbatim>\<open>['']\<close>, the claimed pending set has one
  element (the id is among the targets), but \<^verbatim>\<open>wakeUpRun\<close> returns
  \<^verbatim>\<open>stoppedCount: 0\<close>, because the target filter also requires a truthy id.
\<close>

theorem wakeUpRun_stoppedCount_counterexample:
  "fst (wakeUpRun never_fails [] ''run_1'' (only_id '''') empty_id_state)
     = Success (JObj [(''stoppedCount'', JNum 0)])
   \<and> length (claimed_pending (first_page ''run_1'' empty_id_world) (only_id '''')) = 1"
  by code_simp

lemma example_handle:
  "getWorldFromEnv never_fails [] example_state
     = (Inr 0, snd (getWorldFromEnv never_fails [] example_state))"
proof -
  have "fst (getWorldFromEnv never_fails [] example_state) = Inr 0" by code_simp
  then show ?thesis by (simp add: prod_eq_iff)
qed

lemma example_store: "stores example_state 0 = example_world"
  by (simp add: example_state_def module_load_def)

lemma example_no_fault: "\<forall>hist c. w_fault example_world hist c = None"
  by (simp add: example_world_def)

lemma example_run_exists: "w_runs example_world ''run_1'' = Some example_run"
  by (simp add: example_world_def)

text \<open>
  The wake-up example of the spec: events \<^verbatim>\<open>wait_created(A)\<close>, \<^verbatim>\<open>wait_created(B)\<close>,
  \<^verbatim>\<open>wait_completed(A)\<close> and no filter give \<^verbatim>\<open>stoppedCount: 1\<close> and one new
  \<^verbatim>\<open>wait_completed(B)\<close>.
\<close>

theorem wakeUpRun_stoppedCount_witness:
  "(\<forall>hist c. w_fault (stores example_state 0) hist c = None)
   \<and> w_runs (stores example_state 0) ''run_1'' \<noteq> None
   \<and> fst (wakeUpRun never_fails [] ''run_1'' None example_state)
       = Success (JObj [(''stoppedCount'', JNum 1)])
   \<and> w_events (stores (snd (wakeUpRun never_fails [] ''run_1'' None example_state)) 0)
       = example_events
         @ [\<lparr> eventType = ''wait_completed'', correlationId = Some ''B'', event_runId = ''run_1'' \<rparr>]"
proof -
  let ?s' = "snd (wakeUpRun never_fails [] ''run_1'' None example_state)"
  have nf: "\<forall>hist c. w_fault (stores example_state 0) hist c = None"
    and ex: "w_runs (stores example_state 0) ''run_1'' \<noteq> None"
    by (simp_all add: example_store example_world_def)
  have P: "pending_spec (first_page ''run_1'' (stores example_state 0)) None
             = [\<lparr> eventType = ''wait_created'', correlationId = Some ''B'', event_runId = ''run_1'' \<rparr>]"
    by (simp add: example_store example_world_def example_events_def first_page_def
        pending_spec_def target_filter_given_def)
  note t = wakeUpRun_stoppedCount[OF example_handle, of "''run_1''" None
      "JObj [(''stoppedCount'', JNum 1)]" ?s']
  from t have "(\<forall>hist c. w_fault (stores example_state 0) hist c = None)
                 \<and> w_runs (stores example_state 0) ''run_1'' \<noteq> None \<longrightarrow>
            (\<exists>u. wakeUpRun never_fails [] ''run_1'' None example_state
               = (Success (JObj [(''stoppedCount'', JNum 1)]), u))"
    unfolding P by simp
  with nf ex obtain u where
    u: "wakeUpRun never_fails [] ''run_1'' None example_state
          = (Success (JObj [(''stoppedCount'', JNum 1)]), u)"
    by blast
  then have run: "wakeUpRun never_fails [] ''run_1'' None example_state
          = (Success (JObj [(''stoppedCount'', JNum 1)]), ?s')"
    by simp
  from t run
  have "w_events (stores ?s' 0)
          = w_events (stores example_state 0)
            @ completion_events ''run_1''
                (pending_spec (first_page ''run_1'' (stores example_state 0)) None)"
    by blast
  then have "w_events (stores ?s' 0)
       = example_events
         @ [\<lparr> eventType = ''wait_completed'', correlationId = Some ''B'', event_runId = ''run_1'' \<rparr>]"
    unfolding P
    by (simp add: example_store example_world_def completion_events_def lacks_correlationId_def)
  moreover have "fst (wakeUpRun never_fails [] ''run_1'' None example_state)
       = Success (JObj [(''stoppedCount'', JNum 1)])"
    using u by simp
  ultimately show ?thesis using nf ex by blast
qed

text \<open>A loop that raises: the last call that the world received has failed.\<close>

lemma create_completions_Inl_failed:
  "create_completions rid waits w = (Inl err, w') \<Longrightarrow>
     \<exists>pre c. w_calls w' = w_calls w @ pre @ [(c, Failed)]"
proof (induction waits arbitrary: w)
  case Nil
  then show ?case by simp
next
  case (Cons e waits)
  show ?case
  proof (cases "lacks_correlationId e")
    case True
    then have "create_completions rid waits w = (Inl err, w')"
      using Cons.prems by (simp only: create_completions_skip)
    from Cons.IH[OF this] show ?thesis .
  next
    case False
    then obtain c where c: "correlationId e = Some c"
      by (auto simp: lacks_correlationId_def)
    let ?call = "EventsCreate rid ''wait_completed'' c"
    note step = create_completions_step[OF False, of rid waits w, unfolded c option.sel]
    show ?thesis
    proof (cases "w_fault w (w_calls w) ?call")
      case (Some x)
      then have "w' = received ?call Failed w"
        using Cons.prems step by (simp add: events_create_fails)
      then have "w_calls w' = w_calls w @ [] @ [(?call, Failed)]" by (simp add: received_def)
      then show ?thesis by blast
    next
      case None
      let ?w1 = "received ?call Accepted
                 (w\<lparr>w_events := w_events w
                      @ [\<lparr>eventType = ''wait_completed'', correlationId = Some c, event_runId = rid\<rparr>]\<rparr>)"
      have "create_completions rid waits ?w1 = (Inl err, w')"
        using Cons.prems step None by (simp add: events_create_accepted)
      from Cons.IH[OF this] obtain pre d where
        "w_calls w' = w_calls ?w1 @ pre @ [(d, Failed)]" by blast
      then have "w_calls w' = w_calls w @ ((?call, Accepted) # pre) @ [(d, Failed)]"
        by (simp add: received_def)
      then show ?thesis by blast
    qed
  qed
qed

text \<open>A wake-up that raises: the last call that the world received has failed.\<close>

lemma wake_world_Inl_failed:
  assumes "wake_world rid options w = (Inl err, w')"
  shows "\<exists>pre c. w_calls w' = w_calls w @ pre @ [(c, Failed)]"
proof -
  obtain r1 w1 where g: "runs_get rid w = (r1, w1)" by (cases "runs_get rid w")
  show ?thesis
  proof (cases r1)
    case (Inl e1)
    then have "w' = w1" using assms g by (simp add: wake_world_def)
    moreover have "w1 = received (RunsGet rid) Failed w" using g Inl runs_get_Inl by blast
    ultimately have "w_calls w' = w_calls w @ [] @ [(RunsGet rid, Failed)]"
      by (simp add: received_def)
    then show ?thesis by blast
  next
    case (Inr run)
    note g = g[unfolded Inr]
    have w1: "w1 = received (RunsGet rid) Accepted w"
      using g by (simp add: runs_get_Inr)
    obtain r2 w2 where l: "events_list rid 1000 w1 = (r2, w2)" by (cases "events_list rid 1000 w1")
    show ?thesis
    proof (cases r2)
      case (Inl e2)
      then have "w' = w2" using assms g l by (simp add: wake_world_def)
      moreover have "w2 = received (EventsList rid 1000) Failed w1" using l Inl events_list_Inl by blast
      ultimately have "w_calls w' = w_calls w @ [(RunsGet rid, Accepted)] @ [(EventsList rid 1000, Failed)]"
        using w1 by (simp add: received_def)
      then show ?thesis by blast
    next
      case (Inr data)
      note l = l[unfolded Inr]
      note reads = wake_world_after_reads[OF g l]
      let ?P = "pendingWaits data options"
      let ?reads = "[(RunsGet rid, Accepted), (EventsList rid 1000, Accepted)]"
      obtain r3 w3 where c: "create_completions rid ?P w2 = (r3, w3)"
        by (cases "create_completions rid ?P w2")
      show ?thesis
      proof (cases r3)
        case (Inl e3)
        then have "w' = w3" using assms reads(3) c by simp
        moreover from create_completions_Inl_failed[OF c[unfolded Inl]] obtain pre d where
          "w_calls w3 = w_calls w2 @ pre @ [(d, Failed)]" by blast
        ultimately have "w_calls w' = w_calls w @ (?reads @ pre) @ [(d, Failed)]"
          using reads(2) by simp
        then show ?thesis by blast
      next
        case (Inr u)
        then have r3: "r3 = Inr ()" by simp
        note w3 = create_completions_Inr[OF c[unfolded r3]]
        have ne: "?P \<noteq> []" using assms reads(3) c r3 by (auto split: if_splits)
        let ?q = "''__wkf_workflow_'' @ workflowName run"
        obtain r4 w4 where q: "queue ?q rid (deploymentId run) w3 = (r4, w4)"
          by (cases "queue ?q rid (deploymentId run) w3")
        then obtain e4 where r4: "r4 = Inl e4" and w': "w' = w4"
          using assms reads(3) c r3 ne by (cases r4) auto
        from queue_Inl[OF q[unfolded r4]]
        have "w4 = received (Queue ?q rid (deploymentId run)) Failed w3" .
        then have "w_calls w' = w_calls w
              @ (?reads @ map (\<lambda>c. (c, Accepted)) (create_calls rid ?P))
              @ [(Queue ?q rid (deploymentId run), Failed)]"
          using w' w3 reads(2) by (simp add: received_def)
        then show ?thesis by blast
      qed
    qed
  qed
qed

text \<open>
  A wake-up that finds no pending wait: it leaves the events of the store as they are and
  makes no call besides the two reads; it returns the count 0, unless a read fails.
\<close>

lemma wake_world_no_pending:
  assumes "wake_world rid options w = (r, w')"
    and "pendingWaits (first_page rid w) options = []"
  shows "w_events w' = w_events w
       \<and> ((r = Inr 0
            \<and> new_calls w w' = [(RunsGet rid, Accepted), (EventsList rid 1000, Accepted)])
          \<or> ((\<exists>e. r = Inl e)
              \<and> (new_calls w w' = [(RunsGet rid, Failed)]
                  \<or> new_calls w w' = [(RunsGet rid, Accepted), (EventsList rid 1000, Failed)])))"
proof -
  obtain r1 w1 where g: "runs_get rid w = (r1, w1)" by (cases "runs_get rid w")
  show ?thesis
  proof (cases r1)
    case (Inl e1)
    then have "w' = w1" "r = Inl e1" using assms(1) g by (simp_all add: wake_world_def)
    moreover have "w1 = received (RunsGet rid) Failed w" using g Inl runs_get_Inl by blast
    ultimately show ?thesis by (simp add: received_def new_calls_def)
  next
    case (Inr run)
    note g = g[unfolded Inr]
    have w1: "w1 = received (RunsGet rid) Accepted w"
      using g by (simp add: runs_get_Inr)
    obtain r2 w2 where l: "events_list rid 1000 w1 = (r2, w2)" by (cases "events_list rid 1000 w1")
    show ?thesis
    proof (cases r2)
      case (Inl e2)
      then have "w' = w2" "r = Inl e2" using assms(1) g l by (simp_all add: wake_world_def)
      moreover have "w2 = received (EventsList rid 1000) Failed w1" using l Inl events_list_Inl by blast
      ultimately show ?thesis using w1 by (simp add: received_def new_calls_def)
    next
      case (Inr data)
      note l = l[unfolded Inr]
      note reads = wake_world_after_reads[OF g l]
      have P: "pendingWaits data options = []" using assms(2) reads(1) by simp
      have "wake_world rid options w = (Inr 0, w2)"
        using reads(3)[of options] by (simp add: P)
      then have "r = Inr 0" "w' = w2" using assms(1) by simp_all
      then show ?thesis using reads(2) by (simp add: new_calls_def)
    qed
  qed
qed

lemma pending_spec_filter:
  "target_filter_given options \<Longrightarrow>
     pending_spec data options
       = filter (\<lambda>e. \<not> lacks_correlationId e
                     \<and> correlationId e \<in> set (map Some (target_ids options)))
           (pending_spec data None)"
  by (auto simp: pending_spec_def target_filter_given_def intro: filter_cong)

lemma pending_spec_no_filter:
  "\<not> target_filter_given options \<Longrightarrow> pending_spec data options = pending_spec data None"
  by (simp add: pending_spec_def target_filter_given_def)

lemma example_pending_spec:
  "pending_spec (first_page ''run_1'' (stores example_state 0)) None
     = [\<lparr> eventType = ''wait_created'', correlationId = Some ''B'', event_runId = ''run_1'' \<rparr>]"
  "pending_spec (first_page ''run_1'' (stores example_state 0)) (only_id ''A'') = []"
  by (simp_all add: example_store example_world_def example_events_def first_page_def
      pending_spec_def lacks_correlationId_def target_filter_given_def target_ids_def only_id_def)

lemma no_id_handle:
  "getWorldFromEnv never_fails [] no_id_state
     = (Inr 0, snd (getWorldFromEnv never_fails [] no_id_state))"
proof -
  have "fst (getWorldFromEnv never_fails [] no_id_state) = Inr 0" by code_simp
  then show ?thesis by (simp add: prod_eq_iff)
qed

lemma failing_create_handle:
  "getWorldFromEnv never_fails [] failing_create_state
     = (Inr 0, snd (getWorldFromEnv never_fails [] failing_create_state))"
proof -
  have "fst (getWorldFromEnv never_fails [] failing_create_state) = Inr 0" by code_simp
  then show ?thesis by (simp add: prod_eq_iff)
qed

lemma example_pending:
  "pendingWaits (first_page ''run_1'' (stores example_state 0)) None
     = [\<lparr> eventType = ''wait_created'', correlationId = Some ''B'', event_runId = ''run_1'' \<rparr>]"
  "pendingWaits (first_page ''run_1'' (stores example_state 0)) (only_id ''A'') = []"
  by (simp_all add: example_store example_world_def example_events_def first_page_def
      pendingWaits_def target_filter_given_def target_ids_def only_id_def truthy_string_def)

lemma example_dispatch:
  "dispatch_call example_run ''run_1'' = Queue ''__wkf_workflow_orderFlow'' ''run_1'' ''dpl_1''"
  by (simp add: dispatch_call_def example_run_def)

text \<open>
  Claim C6, as amended. Let \<^verbatim>\<open>wakeUpRun\<close> work on the world \<open>h\<close> and return; the pending
  waits are those of the first page of the run's events, after the optional filter.
  A dispatch (\<^verbatim>\<open>queue\<close>) is among the calls made exactly when the set of pending waits
  is not empty and every call before it, the run lookup, the event listing and every
  synthesis, has been accepted by the store. A dispatch goes to the queue named after the
  run's workflow, with the run id and the run's deployment id, and it is the only one.
  So a wake-up that returns the success variant with pending waits has made exactly one
  dispatch, which was accepted. With no pending wait (also when the target filter leaves
  none), no event is synthesized and no dispatch is made, whatever is returned, and
  \<^verbatim>\<open>stoppedCount: 0\<close> is returned after the two reads, unless one of the reads fails. And
  when the store fails no call and the run exists, the success variant is returned, with
  the number of pending waits.
\<close>

theorem wakeUpRun_dispatch:
  assumes "getWorldFromEnv cf worldEnv s = (Inr h, s1)"
    and "wakeUpRun cf worldEnv rid options s = (res, s')"
  shows "((\<exists>x \<in> set (new_calls (stores s h) (stores s' h)). is_queue_call (fst x))
            \<longleftrightarrow> pending_spec (first_page rid (stores s h)) options \<noteq> []
                \<and> (\<forall>x \<in> set (new_calls (stores s h) (stores s' h)).
                      is_queue_call (fst x) \<or> snd x = Accepted))
       \<and> (\<forall>c out. (c, out) \<in> set (new_calls (stores s h) (stores s' h)) \<and> is_queue_call c \<longrightarrow>
            (\<exists>run. w_runs (stores s h) rid = Some run \<and> c = dispatch_call run rid)
            \<and> filter (\<lambda>x. is_queue_call (fst x)) (new_calls (stores s h) (stores s' h))
                = [(c, out)])
       \<and> ((\<exists>d. res = Success d) \<and> pending_spec (first_page rid (stores s h)) options \<noteq> [] \<longrightarrow>
            (\<exists>run. w_runs (stores s h) rid = Some run
               \<and> filter (\<lambda>x. is_queue_call (fst x)) (new_calls (stores s h) (stores s' h))
                   = [(dispatch_call run rid, Accepted)]))
       \<and> (pending_spec (first_page rid (stores s h)) options = [] \<longrightarrow>
            w_events (stores s' h) = w_events (stores s h)
            \<and> ((res = Success (JObj [(''stoppedCount'', JNum 0)])
                 \<and> new_calls (stores s h) (stores s' h)
                     = [(RunsGet rid, Accepted), (EventsList rid 1000, Accepted)])
               \<or> ((\<exists>err. res = Failure err)
                   \<and> (new_calls (stores s h) (stores s' h) = [(RunsGet rid, Failed)]
                       \<or> new_calls (stores s h) (stores s' h)
                           = [(RunsGet rid, Accepted), (EventsList rid 1000, Failed)]))))
       \<and> ((\<forall>hist c. w_fault (stores s h) hist c = None) \<and> w_runs (stores s h) rid \<noteq> None \<longrightarrow>
            res = Success (JObj [(''stoppedCount'',
                    JNum (int (length (pending_spec (first_page rid (stores s h)) options))))]))"
proof -
  let ?w = "stores s h"
  let ?w' = "stores s' h"
  let ?P = "pendingWaits (first_page rid ?w) options"
  let ?N = "new_calls ?w ?w'"
  let ?reads = "[(RunsGet rid, Accepted), (EventsList rid 1000, Accepted)]"
  from wakeUpRun_outcome[OF assms] obtain r where
    w: "wake_world rid options ?w = (r, ?w')"
    and res: "case r of Inl e \<Rightarrow> (\<exists>err. res = Failure err) | Inr n \<Rightarrow> res = Success (stopped n)"
    by blast
  note ext = wake_world_calls_extend[OF w]
  have disp: "?P \<noteq> []
        \<and> (\<exists>run. w_runs ?w rid = Some run \<and> c = dispatch_call run rid)
        \<and> ?N = (?reads @ map (\<lambda>c. (c, Accepted)) (create_calls rid ?P)) @ [(c, out)]"
    if a: "(c, out) \<in> set ?N" "is_queue_call c" for c out
  proof -
    from a(1) obtain pre post where split: "?N = pre @ (c, out) # post"
      by (meson split_list)
    then have "w_calls ?w' = w_calls ?w @ pre @ (c, out) # post" using ext by simp
    from wake_world_dispatch_last[OF w this a(2)] split show ?thesis by simp
  qed
  have noq: "filter (\<lambda>x. is_queue_call (fst x))
               (map (\<lambda>c. (c, Accepted)) (create_calls rid ?P)) = []"
    by (simp add: create_calls_def filter_map comp_def)
  have acc: "\<forall>x \<in> set (?reads @ map (\<lambda>c. (c, Accepted)) (create_calls rid ?P)). snd x = Accepted"
    by auto
  have c1: "(\<exists>x \<in> set ?N. is_queue_call (fst x))
            \<longleftrightarrow> ?P \<noteq> [] \<and> (\<forall>x \<in> set ?N. is_queue_call (fst x) \<or> snd x = Accepted)"
  proof
    assume "\<exists>x \<in> set ?N. is_queue_call (fst x)"
    then obtain c out where a: "(c, out) \<in> set ?N" "is_queue_call c" by auto
    from disp[OF a] have ne: "?P \<noteq> []"
      and N: "?N = (?reads @ map (\<lambda>c. (c, Accepted)) (create_calls rid ?P)) @ [(c, out)]"
      by blast+
    have "\<forall>x \<in> set ((?reads @ map (\<lambda>c. (c, Accepted)) (create_calls rid ?P)) @ [(c, out)]).
            is_queue_call (fst x) \<or> snd x = Accepted"
      using a(2) by auto
    then have "\<forall>x \<in> set ?N. is_queue_call (fst x) \<or> snd x = Accepted"
      by (simp only: N)
    with ne show "?P \<noteq> [] \<and> (\<forall>x \<in> set ?N. is_queue_call (fst x) \<or> snd x = Accepted)" by blast
  next
    assume b: "?P \<noteq> [] \<and> (\<forall>x \<in> set ?N. is_queue_call (fst x) \<or> snd x = Accepted)"
    show "\<exists>x \<in> set ?N. is_queue_call (fst x)"
    proof (cases r)
      case (Inl e)
      from wake_world_Inl_failed[OF w[unfolded Inl]] obtain pre c where
        "w_calls ?w' = w_calls ?w @ pre @ [(c, Failed)]" by blast
      then have "?N = pre @ [(c, Failed)]" by (rule new_calls_append)
      then have "(c, Failed) \<in> set ?N" by simp
      with b have "is_queue_call c" by fastforce
      with \<open>(c, Failed) \<in> set ?N\<close> show ?thesis by force
    next
      case (Inr n)
      from wake_world_Inr[OF w[unfolded Inr]] b obtain run where
        "w_calls ?w' = w_calls ?w @ (?reads @ map (\<lambda>c. (c, Accepted)) (create_calls rid ?P)
                         @ [(dispatch_call run rid, Accepted)])"
        by auto
      then have "?N = ?reads @ map (\<lambda>c. (c, Accepted)) (create_calls rid ?P)
                         @ [(dispatch_call run rid, Accepted)]"
        by (rule new_calls_append)
      then have "(dispatch_call run rid, Accepted) \<in> set ?N" by simp
      then show ?thesis by (force simp: dispatch_call_def)
    qed
  qed
  have c2: "\<forall>c out. (c, out) \<in> set ?N \<and> is_queue_call c \<longrightarrow>
            (\<exists>run. w_runs ?w rid = Some run \<and> c = dispatch_call run rid)
            \<and> filter (\<lambda>x. is_queue_call (fst x)) ?N = [(c, out)]"
  proof (intro allI impI)
    fix c out
    assume "(c, out) \<in> set ?N \<and> is_queue_call c"
    then have a: "(c, out) \<in> set ?N" "is_queue_call c" by simp_all
    from disp[OF a] have run: "\<exists>run. w_runs ?w rid = Some run \<and> c = dispatch_call run rid"
      and N: "?N = (?reads @ map (\<lambda>c. (c, Accepted)) (create_calls rid ?P)) @ [(c, out)]"
      by blast+
    have "filter (\<lambda>x. is_queue_call (fst x)) ?N = [(c, out)]"
      by (subst N) (simp add: noq a(2))
    with run show "(\<exists>run. w_runs ?w rid = Some run \<and> c = dispatch_call run rid)
            \<and> filter (\<lambda>x. is_queue_call (fst x)) ?N = [(c, out)]" by blast
  qed
  have c3: "(\<exists>d. res = Success d) \<and> ?P \<noteq> [] \<longrightarrow>
            (\<exists>run. w_runs ?w rid = Some run
               \<and> filter (\<lambda>x. is_queue_call (fst x)) ?N = [(dispatch_call run rid, Accepted)])"
  proof
    assume a: "(\<exists>d. res = Success d) \<and> ?P \<noteq> []"
    then obtain n where r: "r = Inr n" using res by (cases r) auto
    from wake_world_Inr[OF w[unfolded r]] a obtain run where
      run: "w_runs ?w rid = Some run"
      and calls: "w_calls ?w' = w_calls ?w @ ((?reads @ map (\<lambda>c. (c, Accepted)) (create_calls rid ?P))
                         @ [(dispatch_call run rid, Accepted)])"
      by auto
    from calls have N: "?N = (?reads @ map (\<lambda>c. (c, Accepted)) (create_calls rid ?P))
                         @ [(dispatch_call run rid, Accepted)]"
      by (rule new_calls_append)
    have "filter (\<lambda>x. is_queue_call (fst x)) ?N = [(dispatch_call run rid, Accepted)]"
      by (subst N) (simp add: noq dispatch_call_def)
    with run show "\<exists>run. w_runs ?w rid = Some run
               \<and> filter (\<lambda>x. is_queue_call (fst x)) ?N = [(dispatch_call run rid, Accepted)]"
      by blast
  qed
  have c4: "?P = [] \<longrightarrow>
            w_events ?w' = w_events ?w
            \<and> ((res = Success (JObj [(''stoppedCount'', JNum 0)]) \<and> ?N = ?reads)
               \<or> ((\<exists>err. res = Failure err)
                   \<and> (?N = [(RunsGet rid, Failed)]
                       \<or> ?N = [(RunsGet rid, Accepted), (EventsList rid 1000, Failed)])))"
  proof
    assume "?P = []"
    from wake_world_no_pending[OF w this] res
    show "w_events ?w' = w_events ?w
            \<and> ((res = Success (JObj [(''stoppedCount'', JNum 0)]) \<and> ?N = ?reads)
               \<or> ((\<exists>err. res = Failure err)
                   \<and> (?N = [(RunsGet rid, Failed)]
                       \<or> ?N = [(RunsGet rid, Accepted), (EventsList rid 1000, Failed)])))"
      by (auto simp: stopped_def)
  qed
  have c5: "(\<forall>hist c. w_fault ?w hist c = None) \<and> w_runs ?w rid \<noteq> None \<longrightarrow>
            res = Success (JObj [(''stoppedCount'', JNum (int (length ?P)))])"
  proof
    assume "(\<forall>hist c. w_fault ?w hist c = None) \<and> w_runs ?w rid \<noteq> None"
    then obtain run where "\<forall>hist c. w_fault ?w hist c = None" "w_runs ?w rid = Some run"
      by auto
    from wakeUpRun_returns[OF assms(1) this, of options] assms(2)
    show "res = Success (JObj [(''stoppedCount'', JNum (int (length ?P)))])"
      by (auto simp: stopped_def)
  qed
  from c1 c2 c3 c4 c5 show ?thesis
    unfolding pendingWaits_spec by (intro conjI)
qed

text \<open>
  The two examples of the spec: no filter gives \<^verbatim>\<open>stoppedCount: 1\<close> and one dispatch, the
  filter \<^verbatim>\<open>["A"]\<close> gives \<^verbatim>\<open>stoppedCount: 0\<close>, no synthesis and no dispatch.
\<close>

theorem wakeUpRun_dispatch_witness:
  "(\<forall>hist c. w_fault (stores example_state 0) hist c = None)
   \<and> w_runs (stores example_state 0) ''run_1'' \<noteq> None
   \<and> pending_spec (first_page ''run_1'' (stores example_state 0)) None \<noteq> []
   \<and> fst (wakeUpRun never_fails [] ''run_1'' None example_state)
       = Success (JObj [(''stoppedCount'', JNum 1)])
   \<and> filter (\<lambda>x. is_queue_call (fst x))
        (new_calls (stores example_state 0)
           (stores (snd (wakeUpRun never_fails [] ''run_1'' None example_state)) 0))
       = [(Queue ''__wkf_workflow_orderFlow'' ''run_1'' ''dpl_1'', Accepted)]
   \<and> pending_spec (first_page ''run_1'' (stores example_state 0)) (only_id ''A'') = []
   \<and> fst (wakeUpRun never_fails [] ''run_1'' (only_id ''A'') example_state)
       = Success (JObj [(''stoppedCount'', JNum 0)])
   \<and> new_calls (stores example_state 0)
        (stores (snd (wakeUpRun never_fails [] ''run_1'' (only_id ''A'') example_state)) 0)
       = [(RunsGet ''run_1'', Accepted), (EventsList ''run_1'' 1000, Accepted)]
   \<and> w_events (stores (snd (wakeUpRun never_fails [] ''run_1'' (only_id ''A'') example_state)) 0)
       = w_events (stores example_state 0)"
proof -
  let ?w = "stores example_state 0"
  let ?r1 = "wakeUpRun never_fails [] ''run_1'' None example_state"
  let ?r2 = "wakeUpRun never_fails [] ''run_1'' (only_id ''A'') example_state"
  have nf: "\<forall>hist c. w_fault ?w hist c = None"
    by (simp add: example_store example_no_fault)
  have run: "w_runs ?w ''run_1'' = Some example_run"
    by (simp add: example_store example_run_exists)
  then have ex: "w_runs ?w ''run_1'' \<noteq> None" by simp
  have p1: "pending_spec (first_page ''run_1'' ?w) None \<noteq> []"
    and l1: "length (pending_spec (first_page ''run_1'' ?w) None) = 1"
    by (simp_all add: example_pending_spec)
  have p2: "pending_spec (first_page ''run_1'' ?w) (only_id ''A'') = []"
    by (simp add: example_pending_spec)
  have e1: "?r1 = (fst ?r1, snd ?r1)" and e2: "?r2 = (fst ?r2, snd ?r2)" by simp_all
  note t1 = wakeUpRun_dispatch[OF example_handle e1]
  note t2 = wakeUpRun_dispatch[OF example_handle e2]
  from t1 nf ex have "fst ?r1 = Success (JObj [(''stoppedCount'',
      JNum (int (length (pending_spec (first_page ''run_1'' ?w) None))))])"
    by blast
  then have f1: "fst ?r1 = Success (JObj [(''stoppedCount'', JNum 1)])"
    by (simp add: l1)
  from t1 f1 p1 obtain r where "w_runs ?w ''run_1'' = Some r"
    "filter (\<lambda>x. is_queue_call (fst x)) (new_calls ?w (stores (snd ?r1) 0))
       = [(dispatch_call r ''run_1'', Accepted)]"
    by blast
  with run have q: "filter (\<lambda>x. is_queue_call (fst x)) (new_calls ?w (stores (snd ?r1) 0))
       = [(Queue ''__wkf_workflow_orderFlow'' ''run_1'' ''dpl_1'', Accepted)]"
    by (simp add: example_dispatch)
  from t2 nf ex have "fst ?r2 = Success (JObj [(''stoppedCount'',
      JNum (int (length (pending_spec (first_page ''run_1'' ?w) (only_id ''A'')))))])"
    by blast
  then have f2: "fst ?r2 = Success (JObj [(''stoppedCount'', JNum 0)])"
    by (simp add: p2)
  from t2 p2 have ev: "w_events (stores (snd ?r2) 0) = w_events ?w"
    and alt: "(fst ?r2 = Success (JObj [(''stoppedCount'', JNum 0)])
                 \<and> new_calls ?w (stores (snd ?r2) 0)
                     = [(RunsGet ''run_1'', Accepted), (EventsList ''run_1'' 1000, Accepted)])
               \<or> ((\<exists>err. fst ?r2 = Failure err)
                   \<and> (new_calls ?w (stores (snd ?r2) 0) = [(RunsGet ''run_1'', Failed)]
                       \<or> new_calls ?w (stores (snd ?r2) 0)
                           = [(RunsGet ''run_1'', Accepted), (EventsList ''run_1'' 1000, Failed)]))"
    by blast+
  from alt f2 have calls: "new_calls ?w (stores (snd ?r2) 0)
       = [(RunsGet ''run_1'', Accepted), (EventsList ''run_1'' 1000, Accepted)]"
    by auto
  from nf ex p1 f1 q p2 f2 calls ev show ?thesis by blast
qed

text \<open>
  Claim C6 as stated fails: in the store of the first example, with its pending wait
  \<^verbatim>\<open>B\<close>, but with \<^verbatim>\<open>events.create\<close> failing, the set of pending waits is not empty and
  \<^verbatim>\<open>wakeUpRun\<close> makes no dispatch: it leaves the loop at the failed synthesis and
  returns the error variant.
\<close>

theorem wakeUpRun_dispatch_counterexample:
  "pending_spec (first_page ''run_1'' (stores failing_create_state 0)) None
     = [\<lparr> eventType = ''wait_created'', correlationId = Some ''B'', event_runId = ''run_1'' \<rparr>]
   \<and> new_calls (stores failing_create_state 0)
        (stores (snd (wakeUpRun never_fails [] ''run_1'' None failing_create_state)) 0)
       = [(RunsGet ''run_1'', Accepted), (EventsList ''run_1'' 1000, Accepted),
          (EventsCreate ''run_1'' ''wait_completed'' ''B'', Failed)]
   \<and> fst (wakeUpRun never_fails [] ''run_1'' None failing_create_state)
       = Failure \<lparr> message = ''Error creating response: store unavailable'', layer = Server,
                   cause = Some ''store unavailable'',
                   request = Some \<lparr> operation = ''wakeUpRun'',
                                    params = [(''runId'', JStr ''run_1''),
                                              (''correlationIds'', JUndefined)],
                                    status = Some 500, url = None, code = None \<rparr> \<rparr>"
  by code_simp

text \<open>
  Claim C9. Whatever \<^verbatim>\<open>wakeUpRun\<close> returns: a dispatch (\<^verbatim>\<open>queue\<close>) among the calls it
  made on the world is the last call the world received; before it come the two reads and one
  \<^verbatim>\<open>events.create\<close> call for every pending wait that carries a correlation id, each of
  them accepted by the store, and the store holds the synthesized events. So no dispatch
  is issued while a synthesis is outstanding or after one has failed.
\<close>

theorem wakeUpRun_synthesis_before_dispatch:
  assumes "getWorldFromEnv cf worldEnv s = (Inr h, s1)"
    and "wakeUpRun cf worldEnv rid options s = (res, s')"
    and "new_calls (stores s h) (stores s' h) = pre @ (c, out) # post"
    and "is_queue_call c"
  shows "post = []
       \<and> w_calls (stores s' h) = w_calls (stores s h) @ pre @ [(c, out)]
       \<and> pre = [(RunsGet rid, Accepted), (EventsList rid 1000, Accepted)]
               @ map (\<lambda>c. (c, Accepted))
                   (create_calls rid (pendingWaits (first_page rid (stores s h)) options))
       \<and> w_events (stores s' h)
           = w_events (stores s h)
             @ completion_events rid (pendingWaits (first_page rid (stores s h)) options)"
proof -
  from wakeUpRun_outcome[OF assms(1,2)] obtain r where
    w: "wake_world rid options (stores s h) = (r, stores s' h)" by blast
  have ext: "w_calls (stores s' h) = w_calls (stores s h) @ pre @ (c, out) # post"
    using wake_world_calls_extend[OF w] assms(3) by simp
  from wake_world_dispatch_last[OF w ext assms(4)]
  have last: "post = []"
    and rest: "pre = [(RunsGet rid, Accepted), (EventsList rid 1000, Accepted)]
               @ map (\<lambda>c. (c, Accepted))
                   (create_calls rid (pendingWaits (first_page rid (stores s h)) options))"
      "w_events (stores s' h)
           = w_events (stores s h)
             @ completion_events rid (pendingWaits (first_page rid (stores s h)) options)"
    by blast+
  from ext last have "w_calls (stores s' h) = w_calls (stores s h) @ pre @ [(c, out)]" by simp
  with last rest show ?thesis by blast
qed

theorem wakeUpRun_synthesis_before_dispatch_witness:
  "new_calls (stores example_state 0)
      (stores (snd (wakeUpRun never_fails [] ''run_1'' None example_state)) 0)
     = [(RunsGet ''run_1'', Accepted), (EventsList ''run_1'' 1000, Accepted),
        (EventsCreate ''run_1'' ''wait_completed'' ''B'', Accepted)]
       @ (Queue ''__wkf_workflow_orderFlow'' ''run_1'' ''dpl_1'', Accepted) # []
   \<and> is_queue_call (Queue ''__wkf_workflow_orderFlow'' ''run_1'' ''dpl_1'')
   \<and> w_events (stores (snd (wakeUpRun never_fails [] ''run_1'' None example_state)) 0)
       = example_events
         @ [\<lparr> eventType = ''wait_completed'', correlationId = Some ''B'', event_runId = ''run_1'' \<rparr>]"
proof -
  let ?w = "stores example_state 0"
  let ?r1 = "wakeUpRun never_fails [] ''run_1'' None example_state"
  have calls: "new_calls ?w (stores (snd ?r1) 0)
     = [(RunsGet ''run_1'', Accepted), (EventsList ''run_1'' 1000, Accepted),
        (EventsCreate ''run_1'' ''wait_completed'' ''B'', Accepted)]
       @ (Queue ''__wkf_workflow_orderFlow'' ''run_1'' ''dpl_1'', Accepted) # []"
    by code_simp
  have q: "is_queue_call (Queue ''__wkf_workflow_orderFlow'' ''run_1'' ''dpl_1'')" by simp
  have e1: "?r1 = (fst ?r1, snd ?r1)" by simp
  from wakeUpRun_synthesis_before_dispatch[OF example_handle e1 calls q]
  have "w_events (stores (snd ?r1) 0)
          = w_events ?w @ completion_events ''run_1'' (pendingWaits (first_page ''run_1'' ?w) None)"
    by blast
  then have "w_events (stores (snd ?r1) 0)
       = example_events
         @ [\<lparr> eventType = ''wait_completed'', correlationId = Some ''B'', event_runId = ''run_1'' \<rparr>]"
    unfolding example_pending
    by (simp add: completion_events_def lacks_correlationId_def example_store example_world_def)
  with calls q show ?thesis by blast
qed

text \<open>
  Claim C10. Let \<^verbatim>\<open>wakeUpRun\<close> work on the world \<open>h\<close>, and let the pending waits be
  the \<^verbatim>\<open>wait_created\<close> events of the first page of the run's events whose correlation
  id is not carried by a \<^verbatim>\<open>wait_completed\<close> event, those that lack a correlation id
  included. When it returns the success variant without a target filter,
  \<^verbatim>\<open>stoppedCount\<close> is the number of all pending waits, and a non-empty pending set gets
  its dispatch, while events are created only for the pending waits that carry a
  correlation id. So when the pending waits are not empty and all lack a correlation id,
  \<^verbatim>\<open>stoppedCount\<close> is their positive number, the calls are the two reads and the
  dispatch, and the store's events are unchanged. When it returns the success variant
  with a non-empty target list, \<^verbatim>\<open>stoppedCount\<close> counts only pending waits that carry a
  non-empty correlation id of the list; so when all pending waits lack a correlation id,
  \<^verbatim>\<open>stoppedCount\<close> is 0, the calls are the two reads and the store's events are
  unchanged. And when the store fails no call and the run
  exists, \<^verbatim>\<open>wakeUpRun\<close> does return the success variant.
\<close>

theorem wakeUpRun_waits_without_correlationId:
  assumes "getWorldFromEnv cf worldEnv s = (Inr h, s1)"
    and "wakeUpRun cf worldEnv rid options s = (res, s')"
  shows "(res = Success d \<and> \<not> target_filter_given options \<longrightarrow>
            d = JObj [(''stoppedCount'',
                  JNum (int (length (pending_spec (first_page rid (stores s h)) None))))]
            \<and> w_events (stores s' h)
                = w_events (stores s h)
                  @ completion_events rid (pending_spec (first_page rid (stores s h)) None)
            \<and> filter (\<lambda>x. is_create_call (fst x)) (new_calls (stores s h) (stores s' h))
                = map (\<lambda>c. (c, Accepted))
                    (create_calls rid (pending_spec (first_page rid (stores s h)) None))
            \<and> (pending_spec (first_page rid (stores s h)) None \<noteq> [] \<longrightarrow>
                 (\<exists>run. w_runs (stores s h) rid = Some run
                    \<and> filter (\<lambda>x. is_queue_call (fst x)) (new_calls (stores s h) (stores s' h))
                        = [(dispatch_call run rid, Accepted)])))
       \<and> (res = Success d \<and> \<not> target_filter_given options
            \<and> pending_spec (first_page rid (stores s h)) None \<noteq> []
            \<and> (\<forall>e \<in> set (pending_spec (first_page rid (stores s h)) None). lacks_correlationId e)
          \<longrightarrow> d = JObj [(''stoppedCount'',
                    JNum (int (length (pending_spec (first_page rid (stores s h)) None))))]
              \<and> 0 < length (pending_spec (first_page rid (stores s h)) None)
              \<and> (\<exists>run. w_runs (stores s h) rid = Some run
                    \<and> new_calls (stores s h) (stores s' h)
                        = [(RunsGet rid, Accepted), (EventsList rid 1000, Accepted),
                           (dispatch_call run rid, Accepted)])
              \<and> w_events (stores s' h) = w_events (stores s h))
       \<and> (res = Success d \<and> target_filter_given options \<longrightarrow>
            d = JObj [(''stoppedCount'',
                  JNum (int (length (filter (\<lambda>e. \<not> lacks_correlationId e
                                \<and> correlationId e \<in> set (map Some (target_ids options)))
                       (pending_spec (first_page rid (stores s h)) None)))))]
            \<and> ((\<forall>e \<in> set (pending_spec (first_page rid (stores s h)) None).
                    lacks_correlationId e) \<longrightarrow>
                 d = JObj [(''stoppedCount'', JNum 0)]
                 \<and> new_calls (stores s h) (stores s' h)
                     = [(RunsGet rid, Accepted), (EventsList rid 1000, Accepted)]
                 \<and> w_events (stores s' h) = w_events (stores s h)))
       \<and> ((\<forall>hist c. w_fault (stores s h) hist c = None) \<and> w_runs (stores s h) rid \<noteq> None \<longrightarrow>
            (\<exists>d. res = Success d))"
proof -
  let ?w = "stores s h"
  let ?w' = "stores s' h"
  let ?Q = "pending_spec (first_page rid ?w) options"
  let ?U = "pending_spec (first_page rid ?w) None"
  let ?N = "new_calls ?w ?w'"
  let ?reads = "[(RunsGet rid, Accepted), (EventsList rid 1000, Accepted)]"
  have succ: "\<exists>run. w_runs ?w rid = Some run
        \<and> d = JObj [(''stoppedCount'', JNum (int (length ?Q)))]
        \<and> w_events ?w' = w_events ?w @ completion_events rid ?Q
        \<and> ?N = ?reads @ map (\<lambda>c. (c, Accepted)) (create_calls rid ?Q)
                 @ (if ?Q = [] then [] else [(dispatch_call run rid, Accepted)])"
    if "res = Success d"
  proof -
    from that assms(2) have "wakeUpRun cf worldEnv rid options s = (Success d, s')" by simp
    from wakeUpRun_Success[OF assms(1) this] obtain n where
      wn: "wake_world rid options ?w = (Inr n, ?w')" and d: "d = stopped n" by blast
    from wake_world_Inr[OF wn] obtain run where
      run: "w_runs ?w rid = Some run" and n: "n = length ?Q"
      and w': "?w' = ?w\<lparr> w_events := w_events ?w @ completion_events rid ?Q,
                      w_calls := w_calls ?w @ ?reads
                         @ map (\<lambda>c. (c, Accepted)) (create_calls rid ?Q)
                         @ (if ?Q = [] then [] else [(dispatch_call run rid, Accepted)]) \<rparr>"
      unfolding pendingWaits_spec by auto
    have "?N = ?reads @ map (\<lambda>c. (c, Accepted)) (create_calls rid ?Q)
                 @ (if ?Q = [] then [] else [(dispatch_call run rid, Accepted)])"
      by (rule new_calls_append, subst w') simp
    moreover have "w_events ?w' = w_events ?w @ completion_events rid ?Q"
      by (subst w') simp
    ultimately show ?thesis using run d n by (simp add: stopped_def)
  qed
  have creates: "filter (\<lambda>x. is_create_call (fst x)) (map (\<lambda>c. (c, Accepted)) (create_calls rid ws))
                   = map (\<lambda>c. (c, Accepted)) (create_calls rid ws)"
    and noqueue: "filter (\<lambda>x. is_queue_call (fst x)) (map (\<lambda>c. (c, Accepted)) (create_calls rid ws)) = []"
    for ws
    by (simp_all add: create_calls_def filter_map comp_def)
  have c1: "res = Success d \<and> \<not> target_filter_given options \<longrightarrow>
            d = JObj [(''stoppedCount'', JNum (int (length ?U)))]
            \<and> w_events ?w' = w_events ?w @ completion_events rid ?U
            \<and> filter (\<lambda>x. is_create_call (fst x)) ?N
                = map (\<lambda>c. (c, Accepted)) (create_calls rid ?U)
            \<and> (?U \<noteq> [] \<longrightarrow>
                 (\<exists>run. w_runs ?w rid = Some run
                    \<and> filter (\<lambda>x. is_queue_call (fst x)) ?N = [(dispatch_call run rid, Accepted)]))"
  proof
    assume a: "res = Success d \<and> \<not> target_filter_given options"
    then have Q: "?Q = ?U" by (simp add: pending_spec_no_filter)
    from succ a obtain run where
      run: "w_runs ?w rid = Some run"
      and d: "d = JObj [(''stoppedCount'', JNum (int (length ?U)))]"
      and ev: "w_events ?w' = w_events ?w @ completion_events rid ?U"
      and N: "?N = ?reads @ map (\<lambda>c. (c, Accepted)) (create_calls rid ?U)
                 @ (if ?U = [] then [] else [(dispatch_call run rid, Accepted)])"
      unfolding Q by blast
    have "filter (\<lambda>x. is_create_call (fst x)) ?N = map (\<lambda>c. (c, Accepted)) (create_calls rid ?U)"
      by (subst N) (simp add: creates dispatch_call_def)
    moreover have "filter (\<lambda>x. is_queue_call (fst x)) ?N = [(dispatch_call run rid, Accepted)]"
      if "?U \<noteq> []"
      using that by (subst N) (simp add: noqueue dispatch_call_def)
    ultimately show "d = JObj [(''stoppedCount'', JNum (int (length ?U)))]
            \<and> w_events ?w' = w_events ?w @ completion_events rid ?U
            \<and> filter (\<lambda>x. is_create_call (fst x)) ?N
                = map (\<lambda>c. (c, Accepted)) (create_calls rid ?U)
            \<and> (?U \<noteq> [] \<longrightarrow>
                 (\<exists>run. w_runs ?w rid = Some run
                    \<and> filter (\<lambda>x. is_queue_call (fst x)) ?N = [(dispatch_call run rid, Accepted)]))"
      using d ev run by blast
  qed
  have c2: "res = Success d \<and> \<not> target_filter_given options \<and> ?U \<noteq> []
            \<and> (\<forall>e \<in> set ?U. lacks_correlationId e)
          \<longrightarrow> d = JObj [(''stoppedCount'', JNum (int (length ?U)))]
              \<and> 0 < length ?U
              \<and> (\<exists>run. w_runs ?w rid = Some run
                    \<and> ?N = [(RunsGet rid, Accepted), (EventsList rid 1000, Accepted),
                           (dispatch_call run rid, Accepted)])
              \<and> w_events ?w' = w_events ?w"
  proof
    assume a: "res = Success d \<and> \<not> target_filter_given options \<and> ?U \<noteq> []
            \<and> (\<forall>e \<in> set ?U. lacks_correlationId e)"
    then have Q: "?Q = ?U" by (simp add: pending_spec_no_filter)
    have none: "filter (\<lambda>e. \<not> lacks_correlationId e) ?U = []"
      using a by (simp add: filter_empty_conv)
    from succ a obtain run where
      run: "w_runs ?w rid = Some run"
      and d: "d = JObj [(''stoppedCount'', JNum (int (length ?U)))]"
      and ev: "w_events ?w' = w_events ?w @ completion_events rid ?U"
      and N: "?N = ?reads @ map (\<lambda>c. (c, Accepted)) (create_calls rid ?U)
                 @ (if ?U = [] then [] else [(dispatch_call run rid, Accepted)])"
      unfolding Q by blast
    have "?N = [(RunsGet rid, Accepted), (EventsList rid 1000, Accepted),
                (dispatch_call run rid, Accepted)]"
      using a by (subst N) (simp add: create_calls_def none)
    moreover have "w_events ?w' = w_events ?w"
      using ev by (simp add: completion_events_def none)
    ultimately show "d = JObj [(''stoppedCount'', JNum (int (length ?U)))]
              \<and> 0 < length ?U
              \<and> (\<exists>run. w_runs ?w rid = Some run
                    \<and> ?N = [(RunsGet rid, Accepted), (EventsList rid 1000, Accepted),
                           (dispatch_call run rid, Accepted)])
              \<and> w_events ?w' = w_events ?w"
      using d run a by blast
  qed
  have c3: "res = Success d \<and> target_filter_given options \<longrightarrow>
            d = JObj [(''stoppedCount'',
                  JNum (int (length (filter (\<lambda>e. \<not> lacks_correlationId e
                                \<and> correlationId e \<in> set (map Some (target_ids options))) ?U))))]
            \<and> ((\<forall>e \<in> set ?U. lacks_correlationId e) \<longrightarrow>
                 d = JObj [(''stoppedCount'', JNum 0)]
                 \<and> ?N = [(RunsGet rid, Accepted), (EventsList rid 1000, Accepted)]
                 \<and> w_events ?w' = w_events ?w)"
  proof
    let ?F = "filter (\<lambda>e. \<not> lacks_correlationId e
                                \<and> correlationId e \<in> set (map Some (target_ids options))) ?U"
    assume a: "res = Success d \<and> target_filter_given options"
    then have Q: "?Q = ?F"
      by (simp add: pending_spec_filter)
    from succ a obtain run where
      d: "d = JObj [(''stoppedCount'', JNum (int (length ?F)))]"
      and ev: "w_events ?w' = w_events ?w @ completion_events rid ?F"
      and N: "?N = ?reads @ map (\<lambda>c. (c, Accepted)) (create_calls rid ?F)
                 @ (if ?F = [] then [] else [(dispatch_call run rid, Accepted)])"
      unfolding Q by blast
    have "d = JObj [(''stoppedCount'', JNum 0)] \<and> ?N = ?reads \<and> w_events ?w' = w_events ?w"
      if "\<forall>e \<in> set ?U. lacks_correlationId e"
    proof -
      from that have F: "?F = []" by (simp add: filter_empty_conv)
      show ?thesis
        using d ev N unfolding F by (simp add: completion_events_def create_calls_def)
    qed
    with d show "d = JObj [(''stoppedCount'', JNum (int (length ?F)))]
            \<and> ((\<forall>e \<in> set ?U. lacks_correlationId e) \<longrightarrow>
                 d = JObj [(''stoppedCount'', JNum 0)]
                 \<and> ?N = [(RunsGet rid, Accepted), (EventsList rid 1000, Accepted)]
                 \<and> w_events ?w' = w_events ?w)"
      by blast
  qed
  have c4: "(\<forall>hist c. w_fault ?w hist c = None) \<and> w_runs ?w rid \<noteq> None \<longrightarrow> (\<exists>d. res = Success d)"
  proof
    assume "(\<forall>hist c. w_fault ?w hist c = None) \<and> w_runs ?w rid \<noteq> None"
    then obtain run where "\<forall>hist c. w_fault ?w hist c = None" "w_runs ?w rid = Some run"
      by auto
    from wakeUpRun_returns[OF assms(1) this, of options] assms(2)
    show "\<exists>d. res = Success d" by auto
  qed
  from c1 c2 c3 c4 show ?thesis by (intro conjI)
qed

lemma no_id_pending_spec:
  "pending_spec (first_page ''run_1'' (stores no_id_state 0)) None
     = [\<lparr> eventType = ''wait_created'', correlationId = None, event_runId = ''run_1'' \<rparr>,
        \<lparr> eventType = ''wait_created'', correlationId = Some '''', event_runId = ''run_1'' \<rparr>]"
  by (simp add: no_id_state_def module_load_def no_id_world_def no_id_events_def first_page_def
      pending_spec_def target_filter_given_def)

text \<open>
  A run with a \<^verbatim>\<open>run_started\<close> event and two pending waits that lack a correlation id:
  without a filter \<^verbatim>\<open>stoppedCount\<close> is 2, the dispatch is made and no event is created;
  with the target list \<^verbatim>\<open>['']\<close> \<^verbatim>\<open>stoppedCount\<close> is 0 and no dispatch is made.
\<close>

theorem wakeUpRun_waits_without_correlationId_witness:
  "(\<forall>hist c. w_fault (stores no_id_state 0) hist c = None)
   \<and> w_runs (stores no_id_state 0) ''run_1'' \<noteq> None
   \<and> \<not> target_filter_given None
   \<and> pending_spec (first_page ''run_1'' (stores no_id_state 0)) None
       = [\<lparr> eventType = ''wait_created'', correlationId = None, event_runId = ''run_1'' \<rparr>,
          \<lparr> eventType = ''wait_created'', correlationId = Some '''', event_runId = ''run_1'' \<rparr>]
   \<and> lacks_correlationId
         \<lparr> eventType = ''wait_created'', correlationId = None, event_runId = ''run_1'' \<rparr>
   \<and> lacks_correlationId
         \<lparr> eventType = ''wait_created'', correlationId = Some '''', event_runId = ''run_1'' \<rparr>
   \<and> fst (wakeUpRun never_fails [] ''run_1'' None no_id_state)
       = Success (JObj [(''stoppedCount'', JNum 2)])
   \<and> new_calls (stores no_id_state 0)
        (stores (snd (wakeUpRun never_fails [] ''run_1'' None no_id_state)) 0)
       = [(RunsGet ''run_1'', Accepted), (EventsList ''run_1'' 1000, Accepted),
          (Queue ''__wkf_workflow_orderFlow'' ''run_1'' ''dpl_1'', Accepted)]
   \<and> w_events (stores (snd (wakeUpRun never_fails [] ''run_1'' None no_id_state)) 0)
       = w_events (stores no_id_state 0)
   \<and> target_filter_given (only_id '''')
   \<and> fst (wakeUpRun never_fails [] ''run_1'' (only_id '''') no_id_state)
       = Success (JObj [(''stoppedCount'', JNum 0)])
   \<and> new_calls (stores no_id_state 0)
        (stores (snd (wakeUpRun never_fails [] ''run_1'' (only_id '''') no_id_state)) 0)
       = [(RunsGet ''run_1'', Accepted), (EventsList ''run_1'' 1000, Accepted)]"
proof -
  let ?w = "stores no_id_state 0"
  let ?r1 = "wakeUpRun never_fails [] ''run_1'' None no_id_state"
  let ?r2 = "wakeUpRun never_fails [] ''run_1'' (only_id '''') no_id_state"
  let ?U = "pending_spec (first_page ''run_1'' ?w) None"
  have nf: "\<forall>hist c. w_fault ?w hist c = None"
    by (simp add: no_id_state_def module_load_def no_id_world_def)
  have run: "w_runs ?w ''run_1'' = Some example_run"
    by (simp add: no_id_state_def module_load_def no_id_world_def)
  then have ex: "w_runs ?w ''run_1'' \<noteq> None" by simp
  have nofilter: "\<not> target_filter_given None" by (simp add: target_filter_given_def)
  have filter: "target_filter_given (only_id '''')"
    by (simp add: target_filter_given_def only_id_def)
  have ne: "?U \<noteq> []" and len: "length ?U = 2"
    and lack: "\<forall>e \<in> set ?U. lacks_correlationId e"
    by (simp_all add: no_id_pending_spec lacks_correlationId_def)
  have e1: "?r1 = (fst ?r1, snd ?r1)" and e2: "?r2 = (fst ?r2, snd ?r2)" by simp_all
  from wakeUpRun_waits_without_correlationId[OF no_id_handle e1] nf ex
  obtain d1 where d1: "fst ?r1 = Success d1" by blast
  from wakeUpRun_waits_without_correlationId[OF no_id_handle e1, of d1] d1 nofilter ne lack
  obtain r where "d1 = JObj [(''stoppedCount'', JNum (int (length ?U)))]"
    and "w_runs ?w ''run_1'' = Some r"
    and "new_calls ?w (stores (snd ?r1) 0)
           = [(RunsGet ''run_1'', Accepted), (EventsList ''run_1'' 1000, Accepted),
              (dispatch_call r ''run_1'', Accepted)]"
    and ev: "w_events (stores (snd ?r1) 0) = w_events ?w"
    by blast
  with run d1 have f1: "fst ?r1 = Success (JObj [(''stoppedCount'', JNum 2)])"
    and calls: "new_calls ?w (stores (snd ?r1) 0)
       = [(RunsGet ''run_1'', Accepted), (EventsList ''run_1'' 1000, Accepted),
          (Queue ''__wkf_workflow_orderFlow'' ''run_1'' ''dpl_1'', Accepted)]"
    by (simp_all add: example_dispatch len)
  from wakeUpRun_waits_without_correlationId[OF no_id_handle e2] nf ex
  obtain d2 where d2: "fst ?r2 = Success d2" by blast
  from wakeUpRun_waits_without_correlationId[OF no_id_handle e2, of d2] d2 filter lack
  have "d2 = JObj [(''stoppedCount'', JNum 0)]"
    and calls2: "new_calls ?w (stores (snd ?r2) 0)
       = [(RunsGet ''run_1'', Accepted), (EventsList ''run_1'' 1000, Accepted)]"
    by blast+
  with d2 have f2: "fst ?r2 = Success (JObj [(''stoppedCount'', JNum 0)])"
    by simp
  have l1: "lacks_correlationId
         \<lparr> eventType = ''wait_created'', correlationId = None, event_runId = ''run_1'' \<rparr>"
    and l2: "lacks_correlationId
         \<lparr> eventType = ''wait_created'', correlationId = Some '''', event_runId = ''run_1'' \<rparr>"
    by (simp_all add: lacks_correlationId_def)
  from nf ex nofilter no_id_pending_spec(1) l1 l2 f1 calls ev filter f2 calls2
  show ?thesis by blast
qed

end
